theory Spec2Isabelle
  imports Complex_Main "HOL-Library.Multiset"
begin

section \<open>Token grids and failures\<close>

text \<open>
  A token grid is a tensor of shape (batch, height, width); it is held as a list of
  planes, each a list of rows. The logits of the denoiser, of shape
  (batch, num_labels, height, width), are held position-major: one list of class scores
  per grid position, which is what \<^verbatim>\<open>permute(0, 2, 3, 1)\<close> and the reshape
  to rows of \<^verbatim>\<open>sample\<close> produce.

  Element-wise operations are defined for operands of one shape. PyTorch would also
  broadcast some operands of different shapes; that is outside this model, which
  answers \<open>ShapeError\<close> for every pair of different shapes.
\<close>

datatype error = IndexError | ShapeError | ValueError | TypeError

type_synonym 'a grid = "'a list list list"

definition shape3 :: "'a grid \<Rightarrow> nat list list" where
  "shape3 g = map (map length) g"

definition cell :: "'a grid \<Rightarrow> nat \<Rightarrow> nat \<Rightarrow> nat \<Rightarrow> 'a" where
  "cell g b h w = g ! b ! h ! w"

definition inb :: "'a grid \<Rightarrow> nat \<Rightarrow> nat \<Rightarrow> nat \<Rightarrow> bool" where
  "inb g b h w = (b < length g \<and> h < length (g ! b) \<and> w < length (g ! b ! h))"

definition gmap :: "('a \<Rightarrow> 'b) \<Rightarrow> 'a grid \<Rightarrow> 'b grid" where
  "gmap f g = map (map (map f)) g"

definition gmap2 :: "('a \<Rightarrow> 'b \<Rightarrow> 'c) \<Rightarrow> 'a grid \<Rightarrow> 'b grid \<Rightarrow> 'c grid" where
  "gmap2 f x y = map2 (map2 (map2 f)) x y"

text \<open>A tensor created with the shape of an existing one (\<^verbatim>\<open>ones_like\<close>,
  \<^verbatim>\<open>randint_like\<close>, \<^verbatim>\<open>zeros_like(t).uniform_\<close>), filled per position.\<close>

definition like :: "'a grid \<Rightarrow> (nat \<Rightarrow> nat \<Rightarrow> nat \<Rightarrow> 'b) \<Rightarrow> 'b grid" where
  "like x f =
     map (\<lambda>b. map (\<lambda>h. map (\<lambda>w. f b h w) [0..<length (x ! b ! h)])
                   [0..<length (x ! b)])
         [0..<length x]"

text \<open>A tensor created with an explicit size (\<^verbatim>\<open>torch.randint(..., size=(B, H, W))\<close>).\<close>

definition full :: "nat \<Rightarrow> nat \<Rightarrow> nat \<Rightarrow> (nat \<Rightarrow> nat \<Rightarrow> nat \<Rightarrow> 'b) \<Rightarrow> 'b grid" where
  "full B H W f = map (\<lambda>b. map (\<lambda>h. map (\<lambda>w. f b h w) [0..<W]) [0..<H]) [0..<B]"

definition grid_all :: "('a \<Rightarrow> bool) \<Rightarrow> 'a grid \<Rightarrow> bool" where
  "grid_all P g = list_all (list_all (list_all P)) g"

section \<open>Random draws\<close>

text \<open>
  The random number generator is outside the program. Each call that draws a tensor
  takes the raw draws as a function of the position: a real in the unit interval for
  \<^verbatim>\<open>uniform_\<close> and \<^verbatim>\<open>bernoulli\<close>, a natural number for \<^verbatim>\<open>randint\<close>.
  A theorem that quantifies over the draws holds for every outcome of the generator.
\<close>

type_synonym 'a draw = "nat \<Rightarrow> nat \<Rightarrow> nat \<Rightarrow> 'a"

text \<open>\<^verbatim>\<open>torch.randint(0, high)\<close>: the raw draw reduced to the half-open range. PyTorch
  refuses an empty range; the callers below check \<open>high = 0\<close> before they draw.\<close>

definition randint :: "nat \<Rightarrow> nat \<Rightarrow> int" where
  "randint high raw = int (raw mod high)"

text \<open>\<^verbatim>\<open>torch.bernoulli(p)\<close> answers 1.0 when the uniform draw is below \<open>p\<close>; the
  later \<^verbatim>\<open>.round().long()\<close> makes it the integer.\<close>

definition bernoulli :: "real \<Rightarrow> real \<Rightarrow> int" where
  "bernoulli p u = (if u < p then 1 else 0)"

section \<open>Floating-point results\<close>

text \<open>
  The tensors hold floating-point numbers. Where the program branches or fails on the
  value a floating-point kernel returns, that value is the exact real result plus the
  rounding error of the kernel, and the rounding error is an input of the model: a
  function of the arguments of the kernel, about which nothing is assumed. An arithmetic
  whose kernels are deterministic and return finite numbers is an instance;
  \<open>no_roundoff\<close> is exact arithmetic.
  \<^item> \<open>cos_err r\<close>: the error of \<^verbatim>\<open>(r * torch.pi / 2).cos()\<close>, the rounding of the
    constant included;
  \<^item> \<open>typicality_err x k\<close>: the error of entry \<open>k\<close> of \<^verbatim>\<open>c_flat_shifted\<close> on the row
    \<open>x\<close>;
  \<^item> \<open>cumsum_err g k\<close>: the error of entry \<open>k\<close> of
    \<^verbatim>\<open>g.softmax(dim=-1).cumsum(dim=-1)\<close> on the gathered row \<open>g\<close>.
\<close>

record rounding =
  cos_err :: "real \<Rightarrow> real"
  typicality_err :: "real list \<Rightarrow> nat \<Rightarrow> real"
  cumsum_err :: "real list \<Rightarrow> nat \<Rightarrow> real"

definition no_roundoff :: rounding where
  "no_roundoff = \<lparr>cos_err = (\<lambda>r. 0), typicality_err = (\<lambda>x k. 0), cumsum_err = (\<lambda>g k. 0)\<rparr>"

text \<open>The errors single precision shows at the two points used in the examples below,
  and none elsewhere: at \<open>r = 1.0\<close> the cosine is \<open>-4.371138828673793e-08\<close> (the
  single-precision value of pi is above pi), and on the gathered row \<open>[2, 0]\<close> the
  cumulative softmax ends one unit in the last place below 1, at \<open>1 - 2^-24\<close>.\<close>

definition single_roundoff :: rounding where
  "single_roundoff =
     \<lparr>cos_err = (\<lambda>r. if r = 1 then - (4371138828673793 / 10 ^ 23) else 0),
      typicality_err = (\<lambda>x k. 0),
      cumsum_err = (\<lambda>g k. if g = [2, 0] \<and> k = 1 then - (1 / 2 ^ 24) else 0)\<rparr>"

section \<open>The noise schedule (modules.py, DenoiseUNet)\<close>

definition gamma :: "rounding \<Rightarrow> real \<Rightarrow> real" where
  "gamma F r = cos (r * pi / 2) + cos_err F r"

text \<open>
  \<^verbatim>\<open>add_noise(x, r, random_x=None)\<close>. \<open>r\<close> holds one progress value per batch
  element and is broadcast over the plane (\<^verbatim>\<open>[:, None, None]\<close>).
  \<^verbatim>\<open>torch.bernoulli\<close> refuses a probability outside the unit interval.
\<close>

definition add_noise ::
  "rounding \<Rightarrow> nat \<Rightarrow> real draw \<Rightarrow> nat draw \<Rightarrow> int grid \<Rightarrow> real list \<Rightarrow> int grid option
    \<Rightarrow> error + (int grid \<times> int grid)" where
  "add_noise F num_labels u raw x r random_x =
     (let p = map (gamma F) r in
      if length p \<noteq> length x then Inl ShapeError
      else if \<not> list_all (\<lambda>q. 0 \<le> q \<and> q \<le> 1) p then Inl ValueError
      else
        let mask = like x (\<lambda>b h w. bernoulli (p ! b) (u b h w)) in
        (case random_x of
           None \<Rightarrow>
             if num_labels = 0 then Inl ValueError
             else
               let rx = like x (\<lambda>b h w. randint num_labels (raw b h w)) in
               Inr (gmap2 (+) (gmap2 (\<lambda>a m. a * (1 - m)) x mask) (gmap2 (*) rx mask), mask)
         | Some rx \<Rightarrow>
             if shape3 rx \<noteq> shape3 x then Inl ShapeError
             else
               Inr (gmap2 (+) (gmap2 (\<lambda>a m. a * (1 - m)) x mask) (gmap2 (*) rx mask), mask)))"

section \<open>Token sampling (utils.py)\<close>

text \<open>A score is a real number or the negative infinity that \<^verbatim>\<open>masked_fill\<close>
  writes; dividing it by a positive temperature or adding finite noise leaves negative
  infinity in place.\<close>

datatype score = NegInf | Val real

fun score_less :: "score \<Rightarrow> score \<Rightarrow> bool" where
  "score_less NegInf (Val b) = True"
| "score_less (Val a) (Val b) = (a < b)"
| "score_less s NegInf = False"

fun score_div :: "score \<Rightarrow> real \<Rightarrow> score" where
  "score_div NegInf t = NegInf"
| "score_div (Val a) t = Val (a / t)"

fun score_add :: "score \<Rightarrow> real \<Rightarrow> score" where
  "score_add NegInf g = NegInf"
| "score_add (Val a) g = Val (a + g)"

text \<open>\<^verbatim>\<open>log(t, eps=1e-20)\<close> and \<^verbatim>\<open>gumbel_noise\<close>, for one uniform draw.\<close>

definition log_eps :: "real \<Rightarrow> real" where
  "log_eps t = ln (t + 1 / 10 ^ 20)"

definition gumbel_noise :: "real \<Rightarrow> real" where
  "gumbel_noise u = - log_eps (- log_eps u)"

text \<open>\<^verbatim>\<open>argmax(dim=-1)\<close> of one row: the index of the first maximal value; an empty
  row is refused.\<close>

fun argmax_acc :: "nat \<Rightarrow> score \<Rightarrow> nat \<Rightarrow> score list \<Rightarrow> nat" where
  "argmax_acc bi bv i [] = bi"
| "argmax_acc bi bv i (v # vs) =
     (if score_less bv v then argmax_acc i v (Suc i) vs else argmax_acc bi bv (Suc i) vs)"

definition argmax :: "score list \<Rightarrow> error + nat" where
  "argmax row = (case row of [] \<Rightarrow> Inl IndexError | v # vs \<Rightarrow> Inr (argmax_acc 0 v 1 vs))"

text \<open>\<^verbatim>\<open>gumbel_sample(t, temperature)\<close> for one row, with the row's uniform draws.\<close>

definition gumbel_sample :: "real \<Rightarrow> (nat \<Rightarrow> real) \<Rightarrow> score list \<Rightarrow> error + nat" where
  "gumbel_sample temperature u t =
     argmax (map2 (\<lambda>s k. score_add (score_div s (max temperature (1 / 10 ^ 10)))
                              (gumbel_noise (u k)))
                  t [0..<length t])"

subsection \<open>The typical filter (the body of \<^verbatim>\<open>if typical_filtering\<close>), for one row\<close>

definition log_softmax :: "real list \<Rightarrow> real list" where
  "log_softmax xs = map (\<lambda>v. v - ln (sum_list (map exp xs))) xs"

definition softmax :: "real list \<Rightarrow> real list" where
  "softmax xs = map (\<lambda>v. exp v / sum_list (map exp xs)) xs"

fun cumsum_acc :: "real \<Rightarrow> real list \<Rightarrow> real list" where
  "cumsum_acc a [] = []"
| "cumsum_acc a (x # xs) = (a + x) # cumsum_acc (a + x) xs"

definition cumsum :: "real list \<Rightarrow> real list" where
  "cumsum xs = cumsum_acc 0 xs"

text \<open>\<^verbatim>\<open>torch.sort(c, descending=False)\<close>: the sorted values and, for each sorted
  position, the index it came from. Equal values keep their order here (PyTorch leaves
  the order of equal values open).\<close>

definition torch_sort :: "real list \<Rightarrow> real list \<times> nat list" where
  "torch_sort c = (let s = sort_key fst (zip c [0..<length c]) in (map fst s, map snd s))"

definition gather :: "'a list \<Rightarrow> nat list \<Rightarrow> 'a list" where
  "gather xs idx = map (\<lambda>i. xs ! i) idx"

text \<open>\<^verbatim>\<open>self.scatter(1, index, src)\<close> on one row: \<open>self[index[j]] = src[j]\<close>.\<close>

definition scatter :: "'a list \<Rightarrow> nat list \<Rightarrow> 'a list \<Rightarrow> 'a list" where
  "scatter self idx src = fold (\<lambda>(i, v) acc. acc[i := v]) (zip idx src) self"

text \<open>Lines 118 to 122: the distance of each class's negative log-probability from the
  entropy of the row, as the device computes it. With finite logits no product is NaN,
  so \<^verbatim>\<open>nansum\<close> is the sum.\<close>

definition typicality :: "rounding \<Rightarrow> real list \<Rightarrow> real list" where
  "typicality F x_flat =
     (let x_flat_norm = log_softmax x_flat;
          x_flat_norm_p = map exp x_flat_norm;
          entropy = - sum_list (map2 (*) x_flat_norm x_flat_norm_p);
          c_flat_shifted = map (\<lambda>v. \<bar>(- v) - entropy\<bar>) x_flat_norm
      in map (\<lambda>k. c_flat_shifted ! k + typicality_err F x_flat k) [0..<length c_flat_shifted])"

text \<open>Lines 123 and 124: the cumulative probabilities in sorted order, as the device
  computes them.\<close>

definition x_flat_cumsum :: "rounding \<Rightarrow> real list \<Rightarrow> real list" where
  "x_flat_cumsum F x_flat =
     (let x_flat_indices = snd (torch_sort (typicality F x_flat));
          g = gather x_flat x_flat_indices;
          s = cumsum (softmax g)
      in map (\<lambda>k. s ! k + cumsum_err F g k) [0..<length s])"

text \<open>Line 126: the number of sorted positions whose cumulative probability is still
  below the mass.\<close>

definition last_ind :: "rounding \<Rightarrow> real \<Rightarrow> real list \<Rightarrow> nat" where
  "last_ind F typical_mass x_flat =
     length (filter (\<lambda>v. v < typical_mass) (x_flat_cumsum F x_flat))"

text \<open>Lines 127 to 131. The \<^verbatim>\<open>gather\<close> of the threshold refuses an index beyond the
  row.\<close>

definition typical_filter ::
  "rounding \<Rightarrow> real \<Rightarrow> nat \<Rightarrow> real list \<Rightarrow> error + score list" where
  "typical_filter F typical_mass typical_min_tokens x_flat =
     (let (c_flat_sorted, x_flat_indices) = torch_sort (typicality F x_flat);
          li = last_ind F typical_mass x_flat
      in if length c_flat_sorted \<le> li then Inl IndexError
         else
           let sorted_indices_to_remove = map (\<lambda>v. c_flat_sorted ! li < v) c_flat_sorted;
               sorted_indices_to_remove =
                 (if 1 < typical_min_tokens
                  then replicate (min typical_min_tokens (length sorted_indices_to_remove)) False
                       @ drop typical_min_tokens sorted_indices_to_remove
                  else sorted_indices_to_remove);
               indices_to_remove =
                 scatter sorted_indices_to_remove x_flat_indices sorted_indices_to_remove
           in Inr (map2 (\<lambda>v r. if r then NegInf else Val v) x_flat indices_to_remove))"

text \<open>The list of removal flags in sorted order, after the minimum-tokens clause.\<close>

definition sorted_removal :: "rounding \<Rightarrow> real \<Rightarrow> nat \<Rightarrow> real list \<Rightarrow> bool list" where
  "sorted_removal F typical_mass typical_min_tokens x =
     (let cs = fst (torch_sort (typicality F x));
          s = map (\<lambda>v. cs ! last_ind F typical_mass x < v) cs
      in if 1 < typical_min_tokens
         then replicate (min typical_min_tokens (length s)) False @ drop typical_min_tokens s
         else s)"

text \<open>The numbers of classes of a filtered row that keep their score and that were set
  to negative infinity.\<close>

definition kept_count :: "score list \<Rightarrow> nat" where
  "kept_count ys = length (filter (\<lambda>s. s \<noteq> NegInf) ys)"

definition removed_count :: "score list \<Rightarrow> nat" where
  "removed_count ys = length (filter (\<lambda>s. s = NegInf) ys)"

text \<open>The filter as the specification words it, in exact arithmetic: the classes in
  ascending order of the distance between their negative log-probability and the
  entropy, the cutoff at the first position of that order where the accumulated
  probability reaches the mass, and exactly the classes up to the cutoff kept.\<close>

definition typical_filter_spec :: "real \<Rightarrow> real list \<Rightarrow> score list" where
  "typical_filter_spec typical_mass x =
     (let p = softmax x;
          entropy = - sum_list (map (\<lambda>q. q * ln q) p);
          distance = map (\<lambda>q. \<bar>(- ln q) - entropy\<bar>) p;
          order = map snd (sort_key fst (zip distance [0..<length x]));
          cutoff = length (takeWhile (\<lambda>m. m < typical_mass) (cumsum (map (\<lambda>k. p ! k) order)));
          kept = set (take (Suc cutoff) order)
      in map (\<lambda>k. if k \<in> kept then Val (x ! k) else NegInf) [0..<length x])"

section \<open>The sampling loop (utils.py, \<^verbatim>\<open>sample\<close>)\<close>

text \<open>
  The conditioning \<open>c\<close> is a (batch, D) tensor and \<open>c_full\<close>, when supplied, a
  (batch, L, D) tensor. The denoiser is the object \<^verbatim>\<open>model\<close>: its field
  \<^verbatim>\<open>num_labels\<close> and its \<^verbatim>\<open>forward\<close>, a black box from the token grid, the
  conditioning and the progress values to the logits. \<open>roundoff\<close> is the rounding of
  the arithmetic its tensors live in.
\<close>

type_synonym cond = "real list list"
type_synonym cond_full = "real list list list"

record model =
  num_labels :: nat
  forward :: "int grid \<Rightarrow> cond \<Rightarrow> real list \<Rightarrow> cond_full option \<Rightarrow> real list grid"
  roundoff :: rounding

text \<open>The keyword arguments of \<^verbatim>\<open>sample\<close>. Step counts are natural numbers;
  \<^verbatim>\<open>temp_range\<close> is its two entries. The argument \<^verbatim>\<open>size\<close> is the field
  \<open>size_hw\<close> and the argument \<^verbatim>\<open>mask\<close> is written \<open>mask_t\<close>, both names being
  constants of the logic.\<close>

record config =
  T :: nat
  size_hw :: "nat \<times> nat"
  starting_t :: nat
  temp_range :: "real \<times> real"
  typical_filtering :: bool
  typical_mass :: real
  typical_min_tokens :: nat
  classifier_free_scale :: real
  renoise_steps :: nat
  renoise_mode :: string

text \<open>The draws of one call of \<^verbatim>\<open>sample\<close>: the initial \<^verbatim>\<open>randint\<close>, and for each
  step the uniform draws of the Gumbel noise (per position and class), the uniform draws
  of the Bernoulli mask and the raw draws of \<^verbatim>\<open>randint_like\<close>.\<close>

record draws =
  init_raw :: "nat draw"
  gumbel_u :: "nat \<Rightarrow> nat \<Rightarrow> nat \<Rightarrow> nat \<Rightarrow> nat \<Rightarrow> real"
  bernoulli_u :: "nat \<Rightarrow> real draw"
  renoise_raw :: "nat \<Rightarrow> nat draw"

definition bind_e :: "error + 'a \<Rightarrow> ('a \<Rightarrow> error + 'b) \<Rightarrow> error + 'b" where
  "bind_e r f = (case r of Inl e \<Rightarrow> Inl e | Inr v \<Rightarrow> f v)"

text \<open>Indexing a tensor along its first dimension with a non-negative index.\<close>

definition item :: "'a list \<Rightarrow> nat \<Rightarrow> error + 'a" where
  "item xs i = (if i < length xs then Inr (xs ! i) else Inl IndexError)"

definition linspace :: "real \<Rightarrow> real \<Rightarrow> nat \<Rightarrow> real list" where
  "linspace a b n = map (\<lambda>k. a + real k * ((b - a) / real (n - 1))) [0..<n]"

text \<open>\<^verbatim>\<open>torch.linspace(0, 1, T+1)[:-1][:, None].expand(-1, c.size(0))\<close>\<close>

definition r_range :: "nat \<Rightarrow> nat \<Rightarrow> real list list" where
  "r_range t b = map (replicate b) (butlast (linspace 0 1 (t + 1)))"

definition temperatures :: "config \<Rightarrow> real list" where
  "temperatures cfg = linspace (fst (temp_range cfg)) (snd (temp_range cfg)) (T cfg)"

fun sequence :: "(error + 'a) list \<Rightarrow> error + 'a list" where
  "sequence [] = Inr []"
| "sequence (r # rs) =
     (case r of Inl e \<Rightarrow> Inl e
      | Inr v \<Rightarrow> (case sequence rs of Inl e \<Rightarrow> Inl e | Inr vs \<Rightarrow> Inr (v # vs)))"

text \<open>A tensor operation that works position by position fails as a whole when it fails
  at one position.\<close>

definition gsequence :: "(error + 'a) grid \<Rightarrow> error + 'a grid" where
  "gsequence g = sequence (map (\<lambda>plane. sequence (map sequence plane)) g)"

text \<open>\<^verbatim>\<open>a * mask + (1 - mask) * b\<close>\<close>

definition blend :: "int grid \<Rightarrow> int grid \<Rightarrow> int grid \<Rightarrow> error + int grid" where
  "blend a mask_t b =
     (if shape3 a = shape3 mask_t \<and> shape3 b = shape3 mask_t
      then Inr (gmap2 (+) (gmap2 (*) a mask_t) (gmap2 (\<lambda>m v. (1 - m) * v) mask_t b))
      else Inl ShapeError)"

text \<open>Lines 100 to 104: the grid the loop starts from.\<close>

definition initial_x ::
  "model \<Rightarrow> draws \<Rightarrow> cond \<Rightarrow> int grid option \<Rightarrow> int grid option \<Rightarrow> config \<Rightarrow> error + int grid" where
  "initial_x M D c x mask_t cfg =
     (case x of
        None \<Rightarrow>
          if num_labels M = 0 then Inl ValueError
          else Inr (full (length c) (fst (size_hw cfg)) (snd (size_hw cfg))
                      (\<lambda>b h w. randint (num_labels M) (init_raw D b h w)))
      | Some x0 \<Rightarrow>
          (case mask_t of
             None \<Rightarrow> Inr x0
           | Some m \<Rightarrow>
               if num_labels M = 0 then Inl ValueError
               else blend (full (length c) (fst (size_hw cfg)) (snd (size_hw cfg))
                            (\<lambda>b h w. randint (num_labels M) (init_raw D b h w))) m x0))"

text \<open>Lines 111 to 114: the conditioned logits, blended with the unconditioned ones when
  \<^verbatim>\<open>classifier_free_scale >= 0\<close>. \<^verbatim>\<open>torch.zeros_like\<close> refuses \<^verbatim>\<open>None\<close>.\<close>

definition lerp :: "real \<Rightarrow> real \<Rightarrow> real \<Rightarrow> real" where
  "lerp start end weight = start + weight * (end - start)"

definition guided_logits ::
  "model \<Rightarrow> config \<Rightarrow> cond \<Rightarrow> cond_full option \<Rightarrow> real list \<Rightarrow> int grid \<Rightarrow> error + real list grid" where
  "guided_logits M cfg c c_full r x =
     (let logits = forward M x c r c_full in
      if 0 \<le> classifier_free_scale cfg then
        (case c_full of
           None \<Rightarrow> Inl TypeError
         | Some cf \<Rightarrow>
             let logits_uncond =
                   forward M x (map (map (\<lambda>v. 0)) c) r (Some (map (map (map (\<lambda>v. 0))) cf))
             in if gmap length logits_uncond = gmap length logits
                then Inr (gmap2 (map2 (\<lambda>u v. lerp u v (classifier_free_scale cfg)))
                            logits_uncond logits)
                else Inl ShapeError)
      else Inr logits)"

text \<open>Lines 115 to 134 for one position: the optional typical filter, then the Gumbel
  arg-max.\<close>

definition sample_row ::
  "rounding \<Rightarrow> config \<Rightarrow> real \<Rightarrow> (nat \<Rightarrow> real) \<Rightarrow> real list \<Rightarrow> error + int" where
  "sample_row F cfg temp u x_flat =
     bind_e (if typical_filtering cfg
             then typical_filter F (typical_mass cfg) (typical_min_tokens cfg) x_flat
             else Inr (map Val x_flat))
       (\<lambda>t. bind_e (gumbel_sample temp u t) (\<lambda>k. Inr (int k)))"

definition sample_tokens ::
  "rounding \<Rightarrow> config \<Rightarrow> real \<Rightarrow> (nat \<Rightarrow> nat \<Rightarrow> nat \<Rightarrow> nat \<Rightarrow> real) \<Rightarrow> real list grid
    \<Rightarrow> error + int grid" where
  "sample_tokens F cfg temp u logits =
     gsequence (like logits (\<lambda>b h w. sample_row F cfg temp (u b h w) (cell logits b h w)))"

text \<open>Lines 135 and 136.\<close>

definition restore :: "int grid option \<Rightarrow> int grid \<Rightarrow> int grid \<Rightarrow> error + int grid" where
  "restore mask_t init_x x = (case mask_t of None \<Rightarrow> Inr x | Some m \<Rightarrow> blend x m init_x)"

text \<open>Lines 107 to 136: one step up to and including the mask restore.\<close>

definition denoise_step ::
  "model \<Rightarrow> config \<Rightarrow> draws \<Rightarrow> cond \<Rightarrow> cond_full option \<Rightarrow> int grid option \<Rightarrow> int grid
    \<Rightarrow> nat \<Rightarrow> int grid \<Rightarrow> error + int grid" where
  "denoise_step M cfg D c c_full mask_t init_x i x =
     bind_e (item (r_range (T cfg) (length c)) i) (\<lambda>r.
     bind_e (item (temperatures cfg) i) (\<lambda>temp.
     bind_e (guided_logits M cfg c c_full r x) (\<lambda>logits.
     bind_e (sample_tokens (roundoff M) cfg temp (gumbel_u D i) logits) (\<lambda>x1.
     restore mask_t init_x x1))))"

text \<open>Lines 138 to 143: the re-corruption of a step \<open>i < renoise_steps\<close>. The index
  \<^verbatim>\<open>r_range[i+1]\<close> is evaluated before \<^verbatim>\<open>add_noise\<close> is called.\<close>

definition renoise ::
  "model \<Rightarrow> config \<Rightarrow> draws \<Rightarrow> cond \<Rightarrow> int grid \<Rightarrow> int grid \<Rightarrow> nat \<Rightarrow> int grid \<Rightarrow> error + int grid" where
  "renoise M cfg D c init_x prev_x i x =
     bind_e (item (r_range (T cfg) (length c)) (i + 1)) (\<lambda>r.
       bind_e
         (if renoise_mode cfg = ''start''
          then add_noise (roundoff M) (num_labels M) (bernoulli_u D i) (renoise_raw D i) x r
                 (Some init_x)
          else if renoise_mode cfg = ''prev''
          then add_noise (roundoff M) (num_labels M) (bernoulli_u D i) (renoise_raw D i) x r
                 (Some prev_x)
          else add_noise (roundoff M) (num_labels M) (bernoulli_u D i) (renoise_raw D i) x r
                 None)
         (\<lambda>p. Inr (fst p)))"

text \<open>The body of the loop. \<^verbatim>\<open>prev_x\<close> is the grid the step starts from; the source
  binds it in the mode \<^verbatim>\<open>'prev'\<close> only, which is the only mode that reads it.\<close>

definition loop_body ::
  "model \<Rightarrow> config \<Rightarrow> draws \<Rightarrow> cond \<Rightarrow> cond_full option \<Rightarrow> int grid option \<Rightarrow> int grid
    \<Rightarrow> nat \<Rightarrow> int grid \<Rightarrow> error + int grid" where
  "loop_body M cfg D c c_full mask_t init_x i x =
     bind_e (denoise_step M cfg D c c_full mask_t init_x i x) (\<lambda>x2.
       if i < renoise_steps cfg then renoise M cfg D c init_x x i x2 else Inr x2)"

text \<open>\<^verbatim>\<open>for i in range(i, n)\<close>, threading the grid and stopping at the first failure.\<close>

function for_range :: "(nat \<Rightarrow> 'a \<Rightarrow> error + 'a) \<Rightarrow> nat \<Rightarrow> nat \<Rightarrow> 'a \<Rightarrow> error + 'a" where
  "for_range body i n x =
     (if i < n then bind_e (body i x) (for_range body (Suc i) n) else Inr x)"
  by pat_completeness auto
termination
  by (relation "measure (\<lambda>(body, i, n, x). n - i)") auto

definition sample ::
  "model \<Rightarrow> draws \<Rightarrow> cond \<Rightarrow> int grid option \<Rightarrow> int grid option \<Rightarrow> config \<Rightarrow> cond_full option
    \<Rightarrow> error + int grid" where
  "sample M D c x mask_t cfg c_full =
     bind_e (initial_x M D c x mask_t cfg) (\<lambda>x0.
       for_range (loop_body M cfg D c c_full mask_t x0) (starting_t cfg) (T cfg) x0)"

text \<open>A grid whose tokens all lie in \<open>[0, n)\<close>.\<close>

definition tokens_ok :: "nat \<Rightarrow> int grid \<Rightarrow> bool" where
  "tokens_ok n g = grid_all (\<lambda>v. 0 \<le> v \<and> v < int n) g"

section \<open>A stub denoiser\<close>

text \<open>A deterministic denoiser for the worked examples: two classes, and at every position
  the logits \<open>[0, ln 3 * c[0][0]]\<close>, so that the conditioning \<open>[[1]]\<close> favours class 1
  and the zeroed conditioning favours none, in exact arithmetic. The draws are constant
  and the configuration is the default one on two steps, one of them with
  re-corruption.\<close>

definition stub_model :: model where
  "stub_model = \<lparr>num_labels = 2,
                  forward = (\<lambda>x c r c_full. gmap (\<lambda>t. [0, ln 3 * (c ! 0 ! 0)]) x),
                  roundoff = no_roundoff\<rparr>"

definition stub_draws :: draws where
  "stub_draws = \<lparr>init_raw = (\<lambda>b h w. 1), gumbel_u = (\<lambda>i b h w k. 1 / 2),
                  bernoulli_u = (\<lambda>i b h w. 0), renoise_raw = (\<lambda>i b h w. 1)\<rparr>"

definition stub_config :: config where
  "stub_config = \<lparr>T = 2, size_hw = (1, 2), starting_t = 0, temp_range = (1, 1),
                   typical_filtering = True, typical_mass = 1 / 5, typical_min_tokens = 1,
                   classifier_free_scale = - 1, renoise_steps = 1, renoise_mode = ''start''\<rparr>"

text \<open>A denoiser in single precision whose logits are \<open>[0, 2]\<close> at every position, for
  the run with a mass of 1.0.\<close>

definition single_model :: model where
  "single_model = \<lparr>num_labels = 2,
                    forward = (\<lambda>x c r c_full. gmap (\<lambda>t. [0, 2]) x),
                    roundoff = single_roundoff\<rparr>"

section \<open>Facts about grids\<close>

lemma inb_shape3: "shape3 a = shape3 b \<Longrightarrow> inb a i h w = inb b i h w"
proof -
  assume s: "shape3 a = shape3 b"
  then have l: "length a = length b"
    unfolding shape3_def by (metis length_map)
  have r: "i < length a \<Longrightarrow> map length (a ! i) = map length (b ! i)" for i
    using s l unfolding shape3_def by (metis nth_map)
  have c: "i < length a \<Longrightarrow> h < length (a ! i) \<Longrightarrow> length (a ! i ! h) = length (b ! i ! h)"
    for i h
    using r [of i] by (metis length_map nth_map)
  have rl: "i < length a \<Longrightarrow> length (a ! i) = length (b ! i)" for i
    using r [of i] by (metis length_map)
  show ?thesis
    unfolding inb_def using l rl c by auto
qed

lemma map_upt_nth: "map (\<lambda>i. f (xs ! i)) [0..<length xs] = map f xs"
  by (rule nth_equalityI) simp_all

lemma shape3_like: "shape3 (like x f) = shape3 x"
proof -
  have "shape3 (like x f) = map (\<lambda>b. map (\<lambda>h. length (x ! b ! h)) [0..<length (x ! b)]) [0..<length x]"
    unfolding shape3_def like_def by (simp add: comp_def)
  also have "\<dots> = map (\<lambda>b. map length (x ! b)) [0..<length x]"
    by (simp only: map_upt_nth)
  also have "\<dots> = map (map length) x"
    by (rule map_upt_nth)
  finally show ?thesis
    unfolding shape3_def .
qed

lemma inb_like: "inb (like x f) b h w = inb x b h w"
  by (rule inb_shape3) (rule shape3_like)

lemma cell_like: "inb x b h w \<Longrightarrow> cell (like x f) b h w = f b h w"
  unfolding inb_def cell_def like_def by simp

lemma shape3_gmap2:
  "shape3 x = shape3 y \<Longrightarrow> shape3 (gmap2 f x y) = shape3 x"
proof -
  assume s: "shape3 x = shape3 y"
  then have l: "length x = length y"
    unfolding shape3_def by (metis length_map)
  have r: "i < length x \<Longrightarrow> map length (x ! i) = map length (y ! i)" for i
    using s l unfolding shape3_def by (metis nth_map)
  have rl: "i < length x \<Longrightarrow> length (x ! i) = length (y ! i)" for i
    using r [of i] by (metis length_map)
  have c: "i < length x \<Longrightarrow> h < length (x ! i) \<Longrightarrow> length (x ! i ! h) = length (y ! i ! h)"
    for i h
    using r [of i] by (metis length_map nth_map)
  show ?thesis
    unfolding shape3_def gmap2_def
    using l rl c by (auto simp: list_eq_iff_nth_eq)
qed

lemma cell_gmap2:
  "shape3 x = shape3 y \<Longrightarrow> inb x b h w \<Longrightarrow>
   cell (gmap2 f x y) b h w = f (cell x b h w) (cell y b h w)"
proof -
  assume s: "shape3 x = shape3 y" and i: "inb x b h w"
  from i inb_shape3 [OF s] have j: "inb y b h w" by simp
  show ?thesis
    using i j unfolding inb_def cell_def gmap2_def by simp
qed

lemma grid_all_cell:
  "grid_all P g = (\<forall>b h w. inb g b h w \<longrightarrow> P (cell g b h w))"
  unfolding grid_all_def inb_def cell_def list_all_length by blast

lemma add_noise_cells:
  assumes sx: "shape3 rx = shape3 x" and sm: "shape3 m = shape3 x" and i: "inb x b h w"
  shows "cell (gmap2 (+) (gmap2 (\<lambda>a m. a * (1 - m)) x m) (gmap2 (*) rx m)) b h w
         = cell x b h w * (1 - cell m b h w) + cell rx b h w * cell m b h w"
proof -
  have s1: "shape3 (gmap2 (\<lambda>a m. a * (1 - m)) x m) = shape3 x"
    using sm by (simp add: shape3_gmap2)
  have s2: "shape3 (gmap2 (*) rx m) = shape3 x"
    using sx sm by (simp add: shape3_gmap2)
  have i1: "inb (gmap2 (\<lambda>a m. a * (1 - m)) x m) b h w"
    using inb_shape3 [OF s1] i by simp
  have i2: "inb rx b h w"
    using inb_shape3 [OF sx] i by simp
  show ?thesis
    using s1 s2 i i1 i2 sx sm by (simp add: cell_gmap2)
qed

lemma add_noise_shape:
  assumes sx: "shape3 rx = shape3 x" and sm: "shape3 m = shape3 x"
  shows "shape3 (gmap2 (+) (gmap2 (\<lambda>a m. a * (1 - m)) x m) (gmap2 (*) rx m)) = shape3 x"
  using sx sm by (simp add: shape3_gmap2)

lemma randint_range: "0 < L \<Longrightarrow> 0 \<le> randint L n \<and> randint L n < int L"
  unfolding randint_def by simp

lemma add_noise_Inr:
  assumes "add_noise F L u raw x r rx = Inr (x', m)"
  shows "length r = length x"
    and "list_all (\<lambda>q. 0 \<le> q \<and> q \<le> 1) (map (gamma F) r)"
    and "m = like x (\<lambda>b h w. bernoulli (map (gamma F) r ! b) (u b h w))"
    and "rx = None \<Longrightarrow> 0 < L"
    and "rx = Some g \<Longrightarrow> shape3 g = shape3 x"
    and "x' = gmap2 (+) (gmap2 (\<lambda>a m. a * (1 - m)) x m)
                (gmap2 (*) (case rx of None \<Rightarrow> like x (\<lambda>b h w. randint L (raw b h w)) | Some g \<Rightarrow> g) m)"
  using assms unfolding add_noise_def Let_def
  by (auto split: if_splits option.splits)

section \<open>Facts about sorting, sums and scatter\<close>

lemma torch_sort_facts:
  assumes "torch_sort c = (cs, idx)"
  shows "mset idx = mset [0..<length c]"
    and "cs = map (\<lambda>i. c ! i) idx"
    and "sorted cs"
proof -
  define s where "s = sort_key fst (zip c [0..<length c])"
  have cs: "cs = map fst s" and idx: "idx = map snd s"
    using assms unfolding torch_sort_def s_def Let_def by auto
  have ms: "mset s = mset (zip c [0..<length c])"
    unfolding s_def by simp
  have z: "map snd (zip c [0..<length c]) = [0..<length c]"
    by simp
  have "mset idx = image_mset snd (mset s)"
    unfolding idx by (simp only: mset_map)
  also have "\<dots> = mset (map snd (zip c [0..<length c]))"
    unfolding ms by (simp only: mset_map)
  also have "\<dots> = mset [0..<length c]"
    by (simp only: z)
  finally show "mset idx = mset [0..<length c]" .
  have "set s = set (zip c [0..<length c])"
    using ms by (metis set_mset_mset)
  then have "\<forall>p \<in> set s. fst p = c ! snd p"
    by (auto simp: set_zip)
  then show "cs = map (\<lambda>i. c ! i) idx"
    unfolding cs idx by simp
  show "sorted cs"
    unfolding cs s_def by (rule sorted_sort_key)
qed

lemma perm_upt_facts:
  assumes "mset idx = mset [0..<n]"
  shows "length idx = n" and "distinct idx" and "set idx = {0..<n}"
proof -
  show "length idx = n"
    using assms by (metis length_upt mset_eq_length minus_nat.diff_0)
  show "distinct idx"
    using assms by (metis distinct_upt mset_eq_imp_distinct_iff)
  show "set idx = {0..<n}"
    using assms by (metis atLeastLessThan_upt mset_eq_setD)
qed

lemma sum_exp_nonneg: "0 \<le> sum_list (map exp (xs :: real list))"
  by (induction xs) simp_all

lemma sum_exp_pos: "xs \<noteq> [] \<Longrightarrow> 0 < sum_list (map exp (xs :: real list))"
proof (cases xs)
  case Nil
  assume "xs \<noteq> []"
  with Nil show ?thesis by simp
next
  case (Cons a ys)
  have "0 < exp a + sum_list (map exp ys)"
    using sum_exp_nonneg [of ys] exp_gt_zero [of a] by linarith
  with Cons show ?thesis by simp
qed

lemma sum_list_softmax: "xs \<noteq> [] \<Longrightarrow> sum_list (softmax xs) = 1"
proof -
  assume n: "xs \<noteq> []"
  have d: "sum_list (map (\<lambda>v. exp v / S) ys) = sum_list (map exp ys) / S" for S and ys :: "real list"
    by (induction ys) (simp_all add: add_divide_distrib)
  show ?thesis
    unfolding softmax_def d using sum_exp_pos [OF n] by simp
qed

lemma length_cumsum_acc: "length (cumsum_acc a xs) = length xs"
  by (induction xs arbitrary: a) simp_all

lemma nth_cumsum_acc:
  "j < length xs \<Longrightarrow> cumsum_acc a xs ! j = a + sum_list (take (Suc j) xs)"
proof (induction xs arbitrary: a j)
  case Nil
  then show ?case by simp
next
  case (Cons x xs)
  show ?case
  proof (cases j)
    case 0
    then show ?thesis by simp
  next
    case (Suc k)
    with Cons.prems have "k < length xs" by simp
    from Cons.IH [OF this, of "a + x"] Suc show ?thesis
      by simp
  qed
qed

lemma length_cumsum: "length (cumsum xs) = length xs"
  unfolding cumsum_def by (rule length_cumsum_acc)

lemma nth_cumsum: "j < length xs \<Longrightarrow> cumsum xs ! j = sum_list (take (Suc j) xs)"
  unfolding cumsum_def by (simp add: nth_cumsum_acc)

lemma softmax_pos: "xs \<noteq> [] \<Longrightarrow> v \<in> set (softmax xs) \<Longrightarrow> 0 < v"
  unfolding softmax_def using sum_exp_pos [of xs] by auto

lemma length_softmax: "length (softmax xs) = length xs"
  unfolding softmax_def by simp


lemma sorted_cumsum_acc: "\<forall>v \<in> set xs. 0 \<le> v \<Longrightarrow> sorted (a # cumsum_acc a xs)"
proof (induction xs arbitrary: a)
  case Nil
  then show ?case by simp
next
  case (Cons x xs)
  then have s: "sorted ((a + x) # cumsum_acc (a + x) xs)" and x: "0 \<le> x"
    by simp_all
  then have "\<forall>v \<in> set ((a + x) # cumsum_acc (a + x) xs). a \<le> v"
    by (metis add.commute le_add_same_cancel2 order_trans set_ConsD sorted_simps(2))
  with s show ?case by simp
qed

lemma sorted_cumsum: "\<forall>v \<in> set xs. 0 \<le> v \<Longrightarrow> sorted (cumsum xs)"
  unfolding cumsum_def using sorted_cumsum_acc [of xs 0] by simp

lemma filter_below_sorted:
  "sorted xs \<Longrightarrow> filter (\<lambda>v. v < (m::real)) xs = takeWhile (\<lambda>v. v < m) xs"
proof (induction xs)
  case Nil
  then show ?case by simp
next
  case (Cons x xs)
  show ?case
  proof (cases "x < m")
    case True
    with Cons show ?thesis by simp
  next
    case False
    with Cons.prems have "\<forall>v \<in> set xs. \<not> v < m"
      by fastforce
    then have "filter (\<lambda>v. v < m) xs = []"
      by (simp add: filter_empty_conv)
    with False show ?thesis by simp
  qed
qed

lemma count_below_sorted:
  assumes "sorted xs" and "k = length (filter (\<lambda>v. v < (m::real)) xs)"
  shows "\<forall>j < k. xs ! j < m" and "k < length xs \<Longrightarrow> m \<le> xs ! k"
proof -
  have k: "k = length (takeWhile (\<lambda>v. v < m) xs)"
    using assms by (simp add: filter_below_sorted)
  show "\<forall>j < k. xs ! j < m"
  proof (intro allI impI)
    fix j assume "j < k"
    then have j: "j < length (takeWhile (\<lambda>v. v < m) xs)"
      using k by simp
    then have "takeWhile (\<lambda>v. v < m) xs ! j \<in> set (takeWhile (\<lambda>v. v < m) xs)"
      by simp
    then have "takeWhile (\<lambda>v. v < m) xs ! j < m"
      by (metis (mono_tags, lifting) set_takeWhileD)
    with j show "xs ! j < m"
      by (simp add: takeWhile_nth)
  qed
  show "m \<le> xs ! k" if "k < length xs"
    using that nth_length_takeWhile [of "\<lambda>v. v < m" xs] k by auto
qed

lemma scatter_alt:
  "scatter self idx src = fold (\<lambda>p acc. acc[fst p := snd p]) (zip idx src) self"
  unfolding scatter_def by (simp add: case_prod_unfold)

lemma fold_update_length:
  "length (fold (\<lambda>p acc. acc[fst p := snd p]) ps self) = length self"
  by (induction ps arbitrary: self) simp_all

lemma scatter_length: "length (scatter self idx src) = length self"
  unfolding scatter_alt by (rule fold_update_length)

lemma fold_update_other:
  "k \<notin> fst ` set ps \<Longrightarrow> fold (\<lambda>p acc. acc[fst p := snd p]) ps self ! k = self ! k"
  by (induction ps arbitrary: self) auto

lemma fold_update_hit:
  "distinct (map fst ps) \<Longrightarrow> j < length ps \<Longrightarrow> fst (ps ! j) < length self \<Longrightarrow>
   fold (\<lambda>p acc. acc[fst p := snd p]) ps self ! fst (ps ! j) = snd (ps ! j)"
proof (induction ps arbitrary: self j)
  case Nil
  then show ?case by simp
next
  case (Cons p ps)
  show ?case
  proof (cases j)
    case 0
    have "fst p \<notin> fst ` set ps"
      using Cons.prems(1) by simp
    then have "fold (\<lambda>p acc. acc[fst p := snd p]) ps (self[fst p := snd p]) ! fst p
               = (self[fst p := snd p]) ! fst p"
      by (rule fold_update_other)
    with 0 Cons.prems(3) show ?thesis
      by simp
  next
    case (Suc k)
    with Cons.prems have k: "k < length ps" and d: "distinct (map fst ps)"
      and l: "fst (ps ! k) < length (self[fst p := snd p])"
      by simp_all
    from Cons.IH [OF d k l] Suc show ?thesis
      by simp
  qed
qed

lemma scatter_nth:
  assumes "distinct idx" and "length idx = length src" and "j < length idx"
    and "idx ! j < length self"
  shows "scatter self idx src ! (idx ! j) = src ! j"
proof -
  have d: "distinct (map fst (zip idx src))"
    using assms by simp
  have j: "j < length (zip idx src)"
    using assms by simp
  have f: "fst (zip idx src ! j) = idx ! j" "snd (zip idx src ! j) = src ! j"
    using assms by simp_all
  from fold_update_hit [OF d j, of self] f assms(4) show ?thesis
    unfolding scatter_alt by simp
qed

lemma scatter_perm:
  assumes p: "mset idx = mset [0..<n]" and ls: "length src = n" and lf: "length self = n"
  shows "mset (scatter self idx src) = mset src"
proof -
  note f = perm_upt_facts [OF p]
  let ?r = "scatter self idx src"
  have lr: "length ?r = n"
    using lf by (simp add: scatter_length)
  have "mset ?r = mset (map (\<lambda>k. ?r ! k) [0..<n])"
    using lr by (metis map_nth)
  also have "\<dots> = image_mset (\<lambda>k. ?r ! k) (mset [0..<n])"
    by (simp only: mset_map)
  also have "\<dots> = image_mset (\<lambda>k. ?r ! k) (mset idx)"
    by (simp only: p)
  also have "\<dots> = mset (map (\<lambda>k. ?r ! k) idx)"
    by (simp only: mset_map)
  also have "map (\<lambda>k. ?r ! k) idx = src"
  proof (rule nth_equalityI)
    show "length (map (\<lambda>k. ?r ! k) idx) = length src"
      using f(1) ls by simp
  next
    fix j assume "j < length (map (\<lambda>k. ?r ! k) idx)"
    then have j: "j < length idx" by simp
    then have "idx ! j \<in> set idx" by simp
    then have b: "idx ! j < length self"
      using f(3) lf by simp
    have "?r ! (idx ! j) = src ! j"
      using f(2) _ j b by (rule scatter_nth) (simp add: f(1) ls)
    with j show "map (\<lambda>k. ?r ! k) idx ! j = src ! j"
      by simp
  qed
  finally show ?thesis .
qed


lemma length_typicality: "length (typicality F x) = length x"
  unfolding typicality_def log_softmax_def Let_def by simp

lemma mset_gather_perm:
  assumes "mset idx = mset [0..<length xs]"
  shows "mset (gather xs idx) = mset xs"
proof -
  have "mset (gather xs idx) = image_mset (\<lambda>i. xs ! i) (mset idx)"
    unfolding gather_def by (simp only: mset_map)
  also have "\<dots> = mset (map (\<lambda>i. xs ! i) [0..<length xs])"
    unfolding assms by (simp only: mset_map)
  also have "map (\<lambda>i. xs ! i) [0..<length xs] = xs"
    by (rule map_nth)
  finally show ?thesis .
qed

lemma softmax_gather:
  assumes "mset idx = mset [0..<length xs]"
  shows "softmax (gather xs idx) = gather (softmax xs) idx"
proof -
  have "mset (map exp (gather xs idx)) = mset (map exp xs)"
    using mset_gather_perm [OF assms] by (metis mset_map)
  then have e: "sum_list (map exp (gather xs idx)) = sum_list (map exp xs)"
    by (metis sum_mset_sum_list)
  have b: "\<forall>i \<in> set idx. i < length xs"
    using perm_upt_facts(3) [OF assms] by simp
  have "softmax (gather xs idx) = map (\<lambda>v. exp v / sum_list (map exp xs)) (gather xs idx)"
    unfolding softmax_def e ..
  also have "\<dots> = gather (softmax xs) idx"
    using b unfolding softmax_def gather_def by simp
  finally show ?thesis .
qed

lemma length_x_flat_cumsum: "length (x_flat_cumsum F x) = length x"
proof -
  have p: "mset (snd (torch_sort (typicality F x))) = mset [0..<length x]"
    using torch_sort_facts(1) [of "typicality F x" "fst (torch_sort (typicality F x))"
        "snd (torch_sort (typicality F x))"]
    by (simp add: length_typicality)
  show ?thesis
    unfolding x_flat_cumsum_def Let_def
    by (simp add: length_cumsum length_softmax gather_def perm_upt_facts(1) [OF p])
qed

lemma x_flat_cumsum_exact:
  assumes "\<forall>g k. cumsum_err F g k = 0"
  shows "x_flat_cumsum F x
         = cumsum (softmax (gather x (snd (torch_sort (typicality F x)))))"
  unfolding x_flat_cumsum_def Let_def using assms by (simp add: map_nth)

lemma last_ind_le: "last_ind F mass x \<le> length x"
  unfolding last_ind_def using length_filter_le [of _ "x_flat_cumsum F x"]
  by (simp add: length_x_flat_cumsum)

text \<open>The exact cumulative probability ends at 1, so a mass that stays below 1 by the
  rounding error of the cumulative sum is reached within the row.\<close>

lemma last_ind_less_err:
  assumes n: "x \<noteq> []" and z: "\<forall>g k. \<bar>cumsum_err F g k\<bar> \<le> e" and m: "mass \<le> 1 - e"
  shows "last_ind F mass x < length x"
proof -
  define idx where "idx = snd (torch_sort (typicality F x))"
  define sm where "sm = softmax (gather x idx)"
  define k where "k = length x - 1"
  have p: "mset idx = mset [0..<length x]"
    using torch_sort_facts(1) [of "typicality F x" "fst (torch_sort (typicality F x))" idx]
    unfolding idx_def by (simp add: length_typicality)
  have li: "length idx = length x"
    using perm_upt_facts(1) [OF p] .
  have g: "gather x idx \<noteq> []"
    using li n unfolding gather_def by auto
  have ls: "length sm = length x"
    unfolding sm_def by (simp add: length_softmax gather_def li)
  have lc: "length (cumsum sm) = length x"
    by (simp add: length_cumsum ls)
  have k: "k < length x"
    unfolding k_def using n by simp
  have "cumsum sm ! k = sum_list (take (Suc k) sm)"
    using k ls by (intro nth_cumsum) simp
  also have "\<dots> = sum_list sm"
    using n ls unfolding k_def by simp
  also have "\<dots> = 1"
    unfolding sm_def using g by (rule sum_list_softmax)
  finally have one: "cumsum sm ! k = 1" .
  have v: "x_flat_cumsum F x ! k = cumsum sm ! k + cumsum_err F (gather x idx) k"
    unfolding x_flat_cumsum_def Let_def idx_def [symmetric] sm_def [symmetric]
    using k lc by simp
  have "\<bar>cumsum_err F (gather x idx) k\<bar> \<le> e"
    using z by blast
  then have "\<not> x_flat_cumsum F x ! k < mass"
    using v one m by linarith
  moreover have "x_flat_cumsum F x ! k \<in> set (x_flat_cumsum F x)"
    using k by (simp add: length_x_flat_cumsum)
  ultimately have "\<exists>v \<in> set (x_flat_cumsum F x). \<not> v < mass"
    by blast
  then have "length (filter (\<lambda>v. v < mass) (x_flat_cumsum F x)) < length (x_flat_cumsum F x)"
    by (metis length_filter_less)
  then show ?thesis
    unfolding last_ind_def by (simp add: length_x_flat_cumsum)
qed

lemma last_ind_less:
  assumes n: "x \<noteq> []" and m: "mass \<le> 1" and z: "\<forall>g k. cumsum_err F g k = 0"
  shows "last_ind F mass x < length x"
  using last_ind_less_err [of x F 0 mass] assms by simp

lemma typical_filter_eq:
  assumes "last_ind F mass x < length x"
  shows "typical_filter F mass mt x =
     Inr (map2 (\<lambda>v r. if r then NegInf else Val v) x
          (scatter (sorted_removal F mass mt x) (snd (torch_sort (typicality F x)))
             (sorted_removal F mass mt x)))"
proof -
  obtain cs idx where t: "torch_sort (typicality F x) = (cs, idx)"
    by (cases "torch_sort (typicality F x)")
  have lc: "length cs = length x"
    using torch_sort_facts(1,2) [OF t] perm_upt_facts(1) [of idx "length x"]
    by (simp add: length_typicality)
  show ?thesis
    unfolding typical_filter_def sorted_removal_def t Let_def
    using assms lc by simp
qed

lemma length_sorted_removal:
  "length (sorted_removal F mass mt x) = length x"
proof -
  obtain cs idx where t: "torch_sort (typicality F x) = (cs, idx)"
    by (cases "torch_sort (typicality F x)")
  have lc: "length cs = length x"
    using torch_sort_facts(1,2) [OF t] perm_upt_facts(1) [of idx "length x"]
    by (simp add: length_typicality)
  show ?thesis
    unfolding sorted_removal_def t Let_def using lc by auto
qed

lemma nth_sorted_removal:
  assumes "j < length x"
  shows "sorted_removal F mass mt x ! j =
     (fst (torch_sort (typicality F x)) ! last_ind F mass x
        < fst (torch_sort (typicality F x)) ! j \<and> \<not> (1 < mt \<and> j < mt))"
proof -
  obtain cs idx where t: "torch_sort (typicality F x) = (cs, idx)"
    by (cases "torch_sort (typicality F x)")
  have lc: "length cs = length x"
    using torch_sort_facts(1,2) [OF t] perm_upt_facts(1) [of idx "length x"]
    by (simp add: length_typicality)
  show ?thesis
  proof (cases "1 < mt")
    case False
    then show ?thesis
      unfolding sorted_removal_def t Let_def using lc assms by simp
  next
    case True
    show ?thesis
    proof (cases "j < mt")
      case True
      with \<open>1 < mt\<close> show ?thesis
        unfolding sorted_removal_def t Let_def using lc assms
        by (simp add: nth_append)
    next
      case False
      with \<open>1 < mt\<close> show ?thesis
        unfolding sorted_removal_def t Let_def using lc assms
        by (simp add: nth_append min_def)
    qed
  qed
qed

section \<open>Facts about the arg-max\<close>

lemma score_less_irrefl: "\<not> score_less s s"
  by (cases s) simp_all

lemma score_less_trans: "score_less a b \<Longrightarrow> score_less b c \<Longrightarrow> score_less a c"
  by (cases a; cases b; cases c) simp_all

lemma argmax_acc_max:
  assumes "drop i row = vs" and "i \<le> length row" and "bi < i" and "row ! bi = bv"
    and "\<forall>j < i. \<not> score_less bv (row ! j)"
  shows "argmax_acc bi bv i vs < length row \<and>
         (\<forall>j < length row. \<not> score_less (row ! argmax_acc bi bv i vs) (row ! j))"
  using assms
proof (induction vs arbitrary: bi bv i)
  case Nil
  then have "i = length row" by simp
  with Nil.prems show ?case by simp
next
  case (Cons v vs)
  from Cons.prems(1) have i: "i < length row"
    by (metis drop_all list.distinct(1) not_le)
  from Cons.prems(1) i have v: "row ! i = v"
    by (metis Cons_nth_drop_Suc list.inject)
  from Cons.prems(1) have d: "drop (Suc i) row = vs"
    by (metis drop_Suc tl_drop list.sel(3))
  from i have s: "Suc i \<le> length row" by simp
  show ?case
  proof (cases "score_less bv v")
    case True
    have m: "\<forall>j < Suc i. \<not> score_less v (row ! j)"
    proof (intro allI impI)
      fix j assume "j < Suc i"
      then consider "j < i" | "j = i" by linarith
      then show "\<not> score_less v (row ! j)"
      proof cases
        case 1
        with Cons.prems(5) have "\<not> score_less bv (row ! j)" by simp
        with True show ?thesis
          using score_less_trans by blast
      next
        case 2
        with v show ?thesis
          by (simp add: score_less_irrefl)
      qed
    qed
    from Cons.IH [OF d s _ v m] True show ?thesis
      by simp
  next
    case False
    have m: "\<forall>j < Suc i. \<not> score_less bv (row ! j)"
      using Cons.prems(5) False v by (auto simp: less_Suc_eq)
    have b: "bi < Suc i"
      using Cons.prems(3) by simp
    from Cons.IH [OF d s b Cons.prems(4) m] False show ?thesis
      by simp
  qed
qed

lemma argmax_max:
  assumes "row \<noteq> []"
  shows "\<exists>k. argmax row = Inr k \<and> k < length row \<and>
             (\<forall>j < length row. \<not> score_less (row ! k) (row ! j))"
proof -
  obtain v vs where r: "row = v # vs"
    using assms by (cases row) auto
  have "argmax_acc 0 v 1 vs < length row \<and>
        (\<forall>j < length row. \<not> score_less (row ! argmax_acc 0 v 1 vs) (row ! j))"
    by (rule argmax_acc_max) (simp_all add: r score_less_irrefl)
  then show ?thesis
    unfolding argmax_def r by simp
qed

lemma argmax_Inr:
  assumes "argmax row = Inr k"
  shows "k < length row \<and> (\<forall>j < length row. \<not> score_less (row ! k) (row ! j))"
proof -
  from assms have "row \<noteq> []"
    unfolding argmax_def by auto
  from argmax_max [OF this] assms show ?thesis
    by auto
qed

lemma gumbel_sample_Inr:
  assumes "gumbel_sample temp u t = Inr k"
  shows "k < length t" and "(\<exists>j < length t. t ! j \<noteq> NegInf) \<Longrightarrow> t ! k \<noteq> NegInf"
proof -
  define g where "g = (\<lambda>s k. score_add (score_div s (max temp (1 / 10 ^ 10))) (gumbel_noise (u k)))"
  define row where "row = map2 g t [0..<length t]"
  have a: "argmax row = Inr k"
    using assms unfolding gumbel_sample_def row_def g_def .
  have l: "length row = length t"
    unfolding row_def by simp
  have n: "j < length t \<Longrightarrow> (row ! j = NegInf) = (t ! j = NegInf)" for j
    unfolding row_def g_def by (cases "t ! j") simp_all
  from argmax_Inr [OF a] l show k: "k < length t"
    by simp
  show "t ! k \<noteq> NegInf" if "\<exists>j < length t. t ! j \<noteq> NegInf"
  proof
    assume "t ! k = NegInf"
    with n [OF k] have rk: "row ! k = NegInf" by simp
    from that obtain j where j: "j < length t" "t ! j \<noteq> NegInf" by blast
    with n [of j] obtain b where "row ! j = Val b"
      by (cases "row ! j") auto
    with rk have "score_less (row ! k) (row ! j)" by simp
    with argmax_Inr [OF a] j(1) l show False by simp
  qed
qed

lemma gumbel_sample_total:
  "t \<noteq> [] \<Longrightarrow> \<exists>k. gumbel_sample temp u t = Inr k"
proof -
  assume "t \<noteq> []"
  then have "map2 (\<lambda>s k. score_add (score_div s (max temp (1 / 10 ^ 10))) (gumbel_noise (u k)))
              t [0..<length t] \<noteq> []"
    by (cases t) (simp_all add: upt_rec)
  from argmax_max [OF this] show ?thesis
    unfolding gumbel_sample_def by blast
qed

section \<open>Facts about the typical filter\<close>

lemmas sort_facts = torch_sort_facts [OF prod.collapse [symmetric]]

lemma sort_perm:
  "mset (snd (torch_sort (typicality F x))) = mset [0..<length x]"
  using sort_facts(1) [of "typicality F x"] by (simp only: length_typicality)

lemma sort_values:
  "fst (torch_sort (typicality F x)) = map (\<lambda>i. typicality F x ! i) (snd (torch_sort (typicality F x)))"
  by (rule sort_facts(2))

lemma sort_sorted:
  "sorted (map (\<lambda>i. typicality F x ! i) (snd (torch_sort (typicality F x))))"
  using sort_facts(3) [of "typicality F x"] by (simp only: sort_values [symmetric])

lemma typical_filter_nth:
  assumes li: "last_ind F mass x < length x" and j: "j < length x"
  shows "\<exists>ys. typical_filter F mass mt x = Inr ys \<and> length ys = length x \<and>
     ys ! (snd (torch_sort (typicality F x)) ! j) =
       (if typicality F x ! (snd (torch_sort (typicality F x)) ! last_ind F mass x)
             < typicality F x ! (snd (torch_sort (typicality F x)) ! j)
           \<and> \<not> (1 < mt \<and> j < mt)
        then NegInf else Val (x ! (snd (torch_sort (typicality F x)) ! j)))"
proof -
  define idx where "idx = snd (torch_sort (typicality F x))"
  define S where "S = sorted_removal F mass mt x"
  define R where "R = scatter S idx S"
  note p = perm_upt_facts [OF sort_perm [of F x], folded idx_def]
  have lS: "length S = length x"
    unfolding S_def by (rule length_sorted_removal)
  have lR: "length R = length x"
    unfolding R_def by (simp add: scatter_length lS)
  have ij: "idx ! j < length x"
    using p(1,3) j by (metis atLeastLessThan_iff nth_mem)
  have il: "idx ! last_ind F mass x < length x"
    using p(1,3) li by (metis atLeastLessThan_iff nth_mem)
  have e: "typical_filter F mass mt x = Inr (map2 (\<lambda>v r. if r then NegInf else Val v) x R)"
    unfolding R_def S_def idx_def using li by (rule typical_filter_eq)
  have "R ! (idx ! j) = S ! j"
    unfolding R_def using p(2) _ _ _
    by (rule scatter_nth) (simp_all add: p(1) lS j ij)
  also have "\<dots> = (fst (torch_sort (typicality F x)) ! last_ind F mass x
        < fst (torch_sort (typicality F x)) ! j \<and> \<not> (1 < mt \<and> j < mt))"
    unfolding S_def using j by (rule nth_sorted_removal)
  also have "\<dots> = (typicality F x ! (idx ! last_ind F mass x) < typicality F x ! (idx ! j)
        \<and> \<not> (1 < mt \<and> j < mt))"
    unfolding sort_values idx_def [symmetric] using j li p(1) by simp
  finally have r: "R ! (idx ! j) = (typicality F x ! (idx ! last_ind F mass x)
        < typicality F x ! (idx ! j) \<and> \<not> (1 < mt \<and> j < mt))" .
  have "map2 (\<lambda>v r. if r then NegInf else Val v) x R ! (idx ! j)
        = (if R ! (idx ! j) then NegInf else Val (x ! (idx ! j)))"
    using ij lR by simp
  with e r lR show ?thesis
    unfolding idx_def [symmetric] by simp
qed

lemma kept_count_zip:
  "length x = length R \<Longrightarrow>
   length (filter (\<lambda>s. s \<noteq> NegInf) (map2 (\<lambda>v r. if r then NegInf else Val v) x R))
     = length (filter Not R)"
  by (induction x R rule: list_induct2) simp_all

lemma removed_count_zip:
  "length x = length R \<Longrightarrow>
   length (filter (\<lambda>s. s = NegInf) (map2 (\<lambda>v r. if r then NegInf else Val v) x R))
     = length (filter id R)"
  by (induction x R rule: list_induct2) simp_all

lemma count_split: "length (filter id R) + length (filter Not R) = length R"
  by (induction R) simp_all

lemma sorted_removal_kept:
  assumes n: "x \<noteq> []" and li: "last_ind F mass x < length x" and mt: "1 \<le> mt"
  shows "min mt (length x) \<le> length (filter Not (sorted_removal F mass mt x))"
proof (cases "1 < mt")
  case True
  obtain cs idx where t: "torch_sort (typicality F x) = (cs, idx)"
    by (cases "torch_sort (typicality F x)")
  have lc: "length cs = length x"
    using torch_sort_facts(1,2) [OF t] perm_upt_facts(1) [of idx "length x"]
    by (simp add: length_typicality)
  show ?thesis
    unfolding sorted_removal_def t Let_def using True lc by simp
next
  case False
  with mt have m1: "mt = 1" by simp
  define S where "S = sorted_removal F mass mt x"
  have l: "length S = length x"
    unfolding S_def by (rule length_sorted_removal)
  have z: "0 < length x" using n by simp
  have s: "sorted (fst (torch_sort (typicality F x)))"
    using sort_sorted [of F x] sort_values [of F x] by simp
  have lc: "length (fst (torch_sort (typicality F x))) = length x"
    using sort_values [of F x] perm_upt_facts(1) [OF sort_perm [of F x]] by simp
  have "fst (torch_sort (typicality F x)) ! 0
        \<le> fst (torch_sort (typicality F x)) ! last_ind F mass x"
    using s li lc by (simp add: sorted_nth_mono)
  then have "\<not> S ! 0"
    unfolding S_def nth_sorted_removal [OF z] by simp
  moreover have "S ! 0 \<in> set S"
    using l z by simp
  ultimately have "filter Not S \<noteq> []"
    by (metis (full_types) filter_empty_conv)
  then have "1 \<le> length (filter Not S)"
    by (cases "filter Not S") simp_all
  then show ?thesis
    unfolding S_def m1 by simp
qed

lemma typical_filter_returns:
  "(\<exists>ys. typical_filter F mass mt x = Inr ys) = (last_ind F mass x < length x)"
proof -
  obtain cs idx where t: "torch_sort (typicality F x) = (cs, idx)"
    by (cases "torch_sort (typicality F x)")
  have lc: "length cs = length x"
    using torch_sort_facts(1,2) [OF t] perm_upt_facts(1) [of idx "length x"]
    by (simp add: length_typicality)
  show ?thesis
    unfolding typical_filter_def t Let_def using lc by simp
qed

lemma typical_filter_Inr_less:
  "typical_filter F mass mt x = Inr ys \<Longrightarrow> last_ind F mass x < length x"
  using typical_filter_returns [of F mass mt x] by blast

lemma typicality_00: "typicality no_roundoff [0, 0] = [0, 0]"
  unfolding typicality_def log_softmax_def Let_def no_roundoff_def
  by (simp add: exp_minus upt_rec)

lemma softmax_00: "softmax [0, 0] = [1 / 2, 1 / 2]"
  unfolding softmax_def by simp

lemma torch_sort_00: "torch_sort [0, 0] = ([0, 0], [0, 1])"
  unfolding torch_sort_def by (simp add: upt_rec)

lemma last_ind_00: "last_ind no_roundoff (1 / 5) [0, 0] = 0"
  unfolding last_ind_def x_flat_cumsum_def Let_def typicality_00 torch_sort_00
  by (simp add: gather_def softmax_00 cumsum_def no_roundoff_def upt_rec)

lemma typical_filter_00: "typical_filter no_roundoff (1 / 5) 1 [0, 0] = Inr [Val 0, Val 0]"
  unfolding typical_filter_def Let_def typicality_00 torch_sort_00 last_ind_00
  by (simp add: scatter_def)

lemma typical_filter_spec_00: "typical_filter_spec (1 / 5) [0, 0] = [Val 0, NegInf]"
  unfolding typical_filter_spec_def Let_def softmax_00
  by (simp add: cumsum_def upt_rec ln_div)

lemma typicality_0: "typicality no_roundoff [0] = [0]"
  unfolding typicality_def log_softmax_def Let_def no_roundoff_def by simp

lemma torch_sort_0: "torch_sort [0] = ([0], [0])"
  unfolding torch_sort_def by simp

lemma last_ind_0: "last_ind no_roundoff (1 / 5) [0] = 0"
  unfolding last_ind_def x_flat_cumsum_def Let_def typicality_0 torch_sort_0
  by (simp add: gather_def softmax_def cumsum_def no_roundoff_def)

lemma typical_filter_0: "typical_filter no_roundoff (1 / 5) 2 [0] = Inr [Val 0]"
  unfolding typical_filter_def Let_def typicality_0 torch_sort_0 last_ind_0
  by (simp add: scatter_def)

lemma ln3_pos: "0 < ln (3::real)"
  by simp

lemma typicality_ln3: "typicality no_roundoff [0, ln 3] = [3 / 4 * ln 3, 1 / 4 * ln 3]"
proof -
  have l: "log_softmax [0, ln 3] = [- ln 4, ln 3 - ln 4]"
    unfolding log_softmax_def by simp
  have e: "map exp [- ln 4, ln 3 - ln (4::real)] = [1 / 4, 3 / 4]"
    by (simp add: exp_minus exp_diff)
  have a: "\<bar>- (- ln 4) - - ((- ln 4) * (1 / 4) + (ln 3 - ln 4) * (3 / 4))\<bar> = 3 / 4 * ln (3::real)"
    using ln3_pos by (simp add: algebra_simps)
  have b: "\<bar>- (ln 3 - ln 4) - - ((- ln 4) * (1 / 4) + (ln 3 - ln 4) * (3 / 4))\<bar> = 1 / 4 * ln (3::real)"
    using ln3_pos by (simp add: algebra_simps)
  have "typicality no_roundoff [0, ln 3] =
      [\<bar>- (- ln 4) - - ((- ln 4) * (1 / 4) + (ln 3 - ln 4) * (3 / 4))\<bar>,
       \<bar>- (ln 3 - ln 4) - - ((- ln 4) * (1 / 4) + (ln 3 - ln 4) * (3 / 4))\<bar>]"
    unfolding typicality_def Let_def l e no_roundoff_def by (simp add: upt_rec)
  then show ?thesis
    unfolding a b .
qed

lemma torch_sort_ln3: "torch_sort [3 / 4 * ln 3, 1 / 4 * ln 3] = ([1 / 4 * ln 3, 3 / 4 * ln 3], [1, 0])"
  unfolding torch_sort_def using ln3_pos by (simp add: upt_rec)

lemma softmax_ln3: "softmax [ln 3, 0] = [3 / 4, 1 / 4]"
  unfolding softmax_def by simp

lemma last_ind_ln3: "last_ind no_roundoff (1 / 5) [0, ln 3] = 0"
  unfolding last_ind_def x_flat_cumsum_def Let_def typicality_ln3 torch_sort_ln3
  by (simp add: gather_def softmax_ln3 cumsum_def no_roundoff_def upt_rec)

lemma typical_filter_ln3: "typical_filter no_roundoff (1 / 5) 1 [0, ln 3] = Inr [NegInf, Val (ln 3)]"
  unfolding typical_filter_def Let_def typicality_ln3 torch_sort_ln3 last_ind_ln3
  using ln3_pos by (simp add: scatter_def)

text \<open>The row \<open>[0, 2]\<close> at a mass of 1. The distances are \<open>2 e\<^sup>2 / (1 + e\<^sup>2)\<close> and
  \<open>2 / (1 + e\<^sup>2)\<close>, the order is class 1 then class 0, and the cumulative probabilities
  are \<open>e\<^sup>2 / (1 + e\<^sup>2)\<close> and 1. In exact arithmetic one of them is below the mass;
  in single precision the second is \<open>1 - 2\<^sup>-\<^sup>2\<^sup>4\<close>, both are below the mass, and the
  gather of the threshold is out of range.\<close>

lemma exp2_gt1: "1 < exp (2::real)"
  by simp

lemma distance_02:
  assumes "0 < (E::real)"
  shows "\<bar>- (- L) - - ((- L) * (1 / (1 + E)) + (2 - L) * (E / (1 + E)))\<bar> = 2 * E / (1 + E)"
    and "\<bar>- (2 - L) - - ((- L) * (1 / (1 + E)) + (2 - L) * (E / (1 + E)))\<bar> = 2 / (1 + E)"
proof -
  define d where "d = 1 + E"
  have n: "d \<noteq> 0" and p: "0 < d" using assms unfolding d_def by simp_all
  have E: "E = d - 1" unfolding d_def by simp
  have "- (- L) - - ((- L) * (1 / d) + (2 - L) * ((d - 1) / d)) = 2 * (d - 1) / d"
    using n by (simp add: field_simps)
  then show "\<bar>- (- L) - - ((- L) * (1 / (1 + E)) + (2 - L) * (E / (1 + E)))\<bar> = 2 * E / (1 + E)"
    using assms p unfolding d_def [symmetric] E by simp
  have "- (2 - L) - - ((- L) * (1 / d) + (2 - L) * ((d - 1) / d)) = - (2 / d)"
    using n by (simp add: field_simps)
  then show "\<bar>- (2 - L) - - ((- L) * (1 / (1 + E)) + (2 - L) * (E / (1 + E)))\<bar> = 2 / (1 + E)"
    using assms p unfolding d_def [symmetric] E by simp
qed

lemma typicality_02:
  assumes "typicality_err F [0, 2] 0 = 0" and "typicality_err F [0, 2] 1 = 0"
  shows "typicality F [0, 2] = [2 * exp 2 / (1 + exp 2), 2 / (1 + exp 2)]"
proof -
  have pos: "0 < 1 + exp (2::real)"
    by (simp add: add_pos_pos)
  have l: "log_softmax [0, 2] = [- ln (1 + exp 2), 2 - ln (1 + exp 2)]"
    unfolding log_softmax_def by simp
  have e: "map exp [- ln (1 + exp 2), 2 - ln (1 + exp (2::real))]
           = [1 / (1 + exp 2), exp 2 / (1 + exp 2)]"
    using pos by (simp add: exp_minus exp_diff divide_inverse)
  have "typicality F [0, 2] =
      [\<bar>- (- ln (1 + exp 2)) - - ((- ln (1 + exp 2)) * (1 / (1 + exp 2))
           + (2 - ln (1 + exp 2)) * (exp 2 / (1 + exp 2)))\<bar>,
       \<bar>- (2 - ln (1 + exp 2)) - - ((- ln (1 + exp 2)) * (1 / (1 + exp 2))
           + (2 - ln (1 + exp 2)) * (exp 2 / (1 + exp 2)))\<bar>]"
    unfolding typicality_def Let_def l e using assms by (simp add: upt_rec)
  then show ?thesis
    unfolding distance_02 [of "exp 2", OF exp_gt_zero] .
qed

lemma torch_sort_02:
  "torch_sort [2 * exp 2 / (1 + exp 2), 2 / (1 + exp 2)]
     = ([2 / (1 + exp 2), 2 * exp 2 / (1 + exp 2)], [1, 0])"
proof -
  have pos: "0 < 1 + exp (2::real)"
    by (simp add: add_pos_pos)
  have "2 / (1 + exp 2) < 2 * exp 2 / (1 + exp (2::real))"
    by (intro divide_strict_right_mono) (simp_all add: add_pos_pos)
  then have "\<not> 2 * exp 2 / (1 + exp 2) \<le> 2 / (1 + exp (2::real))"
    by simp
  then show ?thesis
    unfolding torch_sort_def by (simp add: upt_rec)
qed

lemma softmax_20: "softmax [2, 0] = [exp 2 / (exp 2 + 1), 1 / (exp 2 + 1)]"
  unfolding softmax_def by simp

lemma cumsum_20:
  "cumsum [exp 2 / (exp 2 + 1), 1 / (exp 2 + 1)] = [exp 2 / (exp 2 + 1), 1 :: real]"
proof -
  have pos: "exp 2 + 1 \<noteq> (0::real)"
    using exp_gt_zero [of "2::real"] by linarith
  have "exp 2 / (exp 2 + 1) + 1 / (exp 2 + 1) = (1::real)"
    using pos by (simp add: add_divide_distrib [symmetric])
  then show ?thesis
    unfolding cumsum_def by simp
qed

lemma first_mass_20: "exp 2 / (exp 2 + 1) < (1::real)"
proof -
  have "0 < exp 2 + (1::real)"
    by (simp add: add_pos_pos)
  then show ?thesis by simp
qed

lemma typicality_02_exact:
  "typicality no_roundoff [0, 2] = [2 * exp 2 / (1 + exp 2), 2 / (1 + exp 2)]"
  by (rule typicality_02) (simp_all add: no_roundoff_def)

lemma typicality_02_single:
  "typicality single_roundoff [0, 2] = [2 * exp 2 / (1 + exp 2), 2 / (1 + exp 2)]"
  by (rule typicality_02) (simp_all add: single_roundoff_def)

lemma x_flat_cumsum_02_exact:
  "x_flat_cumsum no_roundoff [0, 2] = [exp 2 / (exp 2 + 1), 1]"
  unfolding x_flat_cumsum_def Let_def typicality_02_exact torch_sort_02
  by (simp add: gather_def softmax_20 cumsum_20 no_roundoff_def upt_rec)

lemma x_flat_cumsum_02_single:
  "x_flat_cumsum single_roundoff [0, 2] = [exp 2 / (exp 2 + 1), 1 - 1 / 2 ^ 24]"
  unfolding x_flat_cumsum_def Let_def typicality_02_single torch_sort_02
  by (simp add: gather_def softmax_20 cumsum_20 single_roundoff_def upt_rec)

lemma last_ind_02_exact: "last_ind no_roundoff 1 [0, 2] = 1"
  unfolding last_ind_def x_flat_cumsum_02_exact using first_mass_20 by simp

lemma last_ind_02_single: "last_ind single_roundoff 1 [0, 2] = 2"
  unfolding last_ind_def x_flat_cumsum_02_single using first_mass_20 by simp

lemma typical_filter_02_single: "typical_filter single_roundoff 1 mt [0, 2] = Inl IndexError"
proof -
  have "\<not> (\<exists>ys. typical_filter single_roundoff 1 mt [0, 2] = Inr ys)"
    unfolding typical_filter_returns last_ind_02_single by simp
  moreover have "typical_filter single_roundoff 1 mt [0, 2] = Inl IndexError
      \<or> (\<exists>ys. typical_filter single_roundoff 1 mt [0, 2] = Inr ys)"
    unfolding typical_filter_def Let_def by (simp split: prod.splits)
  ultimately show ?thesis by blast
qed

lemma log_softmax_ln: "x \<noteq> [] \<Longrightarrow> log_softmax x = map ln (softmax x)"
proof -
  assume "x \<noteq> []"
  then have s: "0 < sum_list (map exp x)" by (rule sum_exp_pos)
  have "v - ln (sum_list (map exp x)) = ln (exp v / sum_list (map exp x))" for v
    using s by (simp add: ln_div)
  then show ?thesis
    unfolding log_softmax_def softmax_def by simp
qed

lemma typicality_distance:
  assumes "x \<noteq> []" and z: "\<forall>k. typicality_err F x k = 0"
  shows "typicality F x =
     map (\<lambda>q. \<bar>(- ln q) - (- sum_list (map (\<lambda>q. q * ln q) (softmax x)))\<bar>) (softmax x)"
proof -
  have p: "\<forall>q \<in> set (softmax x). 0 < q"
    using softmax_pos [OF assms(1)] by blast
  then have e: "map exp (map ln (softmax x)) = softmax x"
    by (simp add: map_idI)
  have m: "map2 (*) (map ln (softmax x)) (softmax x) = map (\<lambda>q. q * ln q) (softmax x)"
    by (simp add: zip_map1 zip_same_conv_map mult.commute)
  have n: "map (\<lambda>k. cs ! k + typicality_err F x k) [0..<length cs] = cs" for cs :: "real list"
    using z by (simp add: map_nth)
  show ?thesis
    unfolding typicality_def Let_def log_softmax_ln [OF assms(1)] e m n by simp
qed

lemma x_flat_cumsum_sorted:
  assumes n: "x \<noteq> []" and z: "\<forall>g k. cumsum_err F g k = 0"
  shows "x_flat_cumsum F x = cumsum (gather (softmax x) (snd (torch_sort (typicality F x))))"
    and "sorted (x_flat_cumsum F x)"
proof -
  define idx where "idx = snd (torch_sort (typicality F x))"
  have p: "mset idx = mset [0..<length x]"
    unfolding idx_def by (rule sort_perm)
  note pf = perm_upt_facts [OF p]
  have c: "x_flat_cumsum F x = cumsum (softmax (gather x idx))"
    unfolding idx_def by (rule x_flat_cumsum_exact [OF z])
  then show "x_flat_cumsum F x = cumsum (gather (softmax x) (snd (torch_sort (typicality F x))))"
    using p unfolding idx_def [symmetric] by (simp add: softmax_gather)
  have g: "gather x idx \<noteq> []"
    using pf(1) n unfolding gather_def by auto
  have "\<forall>v \<in> set (softmax (gather x idx)). 0 \<le> v"
    using softmax_pos [OF g] by (metis less_eq_real_def)
  then show "sorted (x_flat_cumsum F x)"
    unfolding c by (rule sorted_cumsum)
qed

section \<open>The typical filter: properties\<close>

text \<open>C2, as the code has it. The distances \<open>c\<close> and the cumulative probabilities \<open>cum\<close>
  are the tensors the device computes: the distance of each class's negative
  log-probability from the entropy of the row and the accumulated softmax probability in
  ascending order of \<open>c\<close>, each with the rounding error of its kernel. \<open>li\<close> is the number
  of entries of \<open>cum\<close> below the mass, which is the first position where \<open>cum\<close> reaches
  the mass when \<open>cum\<close> is ascending.
  \<^item> The filter returns exactly when \<open>li\<close> is a position of the row; otherwise the gather
    of the threshold is out of range.
  \<^item> When it returns, the row has the same length, and the class at sorted position \<open>j\<close>
    is set to negative infinity exactly when its distance is greater than the distance of
    the class at position \<open>li\<close> and it is not among the first \<open>typical_min_tokens\<close>
    positions (when that is more than 1); every other class keeps its score, at its own
    class position. So all classes up to the cutoff are kept, and so is a later class
    whose distance equals the distance at the cutoff. The arg-max sampling that follows
    returns a class that was kept.
  \<^item> With no rounding error \<open>c\<close> and \<open>cum\<close> are the exact quantities, \<open>cum\<close> is
    ascending, and the filter returns on every non-empty row for a mass of at most 1.\<close>

theorem typical_filter_retained:
  "((\<exists>ys. typical_filter F mass mt x = Inr ys) = (last_ind F mass x < length x)) \<and>
   (typical_filter F mass mt x = Inr ys \<longrightarrow>
      length ys = length x \<and>
      (let c = typicality F x;
           idx = snd (torch_sort c);
           cum = x_flat_cumsum F x;
           li = last_ind F mass x
       in mset idx = mset [0..<length x] \<and> sorted (gather c idx) \<and>
          li = length (filter (\<lambda>v. v < mass) cum) \<and>
          (sorted cum \<longrightarrow> (\<forall>j < li. cum ! j < mass) \<and> mass \<le> cum ! li) \<and>
          (\<forall>j < length x. ys ! (idx ! j) =
             (if c ! (idx ! li) < c ! (idx ! j) \<and> \<not> (1 < mt \<and> j < mt)
              then NegInf else Val (x ! (idx ! j)))) \<and>
          (\<forall>j \<le> li. ys ! (idx ! j) = Val (x ! (idx ! j))) \<and>
          (\<forall>temperature u. \<exists>k < length x.
             gumbel_sample temperature u ys = Inr k \<and> ys ! k \<noteq> NegInf))) \<and>
   (x \<noteq> [] \<and> (\<forall>k. typicality_err F x k = 0) \<longrightarrow>
      typicality F x =
        map (\<lambda>q. \<bar>(- ln q) - (- sum_list (map (\<lambda>q. q * ln q) (softmax x)))\<bar>) (softmax x)) \<and>
   (x \<noteq> [] \<and> (\<forall>g k. cumsum_err F g k = 0) \<longrightarrow>
      x_flat_cumsum F x = cumsum (gather (softmax x) (snd (torch_sort (typicality F x)))) \<and>
      sorted (x_flat_cumsum F x) \<and>
      (mass \<le> 1 \<longrightarrow> last_ind F mass x < length x))"
proof (intro conjI impI)
  show "(\<exists>ys. typical_filter F mass mt x = Inr ys) = (last_ind F mass x < length x)"
    by (rule typical_filter_returns)
next
  assume "x \<noteq> [] \<and> (\<forall>k. typicality_err F x k = 0)"
  then show "typicality F x =
        map (\<lambda>q. \<bar>(- ln q) - (- sum_list (map (\<lambda>q. q * ln q) (softmax x)))\<bar>) (softmax x)"
    using typicality_distance by blast
next
  assume a: "x \<noteq> [] \<and> (\<forall>g k. cumsum_err F g k = 0)"
  then show "x_flat_cumsum F x = cumsum (gather (softmax x) (snd (torch_sort (typicality F x))))"
    using x_flat_cumsum_sorted(1) by blast
  from a show "sorted (x_flat_cumsum F x)"
    using x_flat_cumsum_sorted(2) by blast
  assume "mass \<le> 1"
  with a show "last_ind F mass x < length x"
    using last_ind_less by blast
next
  assume e: "typical_filter F mass mt x = Inr ys"
  define idx where "idx = snd (torch_sort (typicality F x))"
  define li where "li = last_ind F mass x"
  define cum where "cum = x_flat_cumsum F x"
  have li: "li < length x"
    unfolding li_def using e by (rule typical_filter_Inr_less)
  then have n: "x \<noteq> []" by auto
  have p: "mset idx = mset [0..<length x]"
    unfolding idx_def by (rule sort_perm)
  note pf = perm_upt_facts [OF p]
  have so: "sorted (gather (typicality F x) idx)"
    unfolding gather_def idx_def by (rule sort_sorted)
  have lcum: "length cum = length x"
    unfolding cum_def by (rule length_x_flat_cumsum)
  have lk: "li = length (filter (\<lambda>v. v < mass) cum)"
    unfolding li_def last_ind_def cum_def ..
  have below: "\<forall>j < li. cum ! j < mass" if "sorted cum"
    using that lk by (rule count_below_sorted(1))
  have reach: "mass \<le> cum ! li" if "sorted cum"
    using that lk li lcum by (intro count_below_sorted(2)) simp_all
  have ly: "length ys = length x"
    using typical_filter_nth [of F mass x 0 mt] li n e unfolding li_def by auto
  have nth: "ys ! (idx ! j) =
       (if typicality F x ! (idx ! li) < typicality F x ! (idx ! j) \<and> \<not> (1 < mt \<and> j < mt)
        then NegInf else Val (x ! (idx ! j)))" if "j < length x" for j
    using typical_filter_nth [of F mass x j mt] li that e
    unfolding li_def idx_def by auto
  have upto: "ys ! (idx ! j) = Val (x ! (idx ! j))" if "j \<le> li" for j
  proof -
    have j: "j < length x" using that li by simp
    have "li < length (gather (typicality F x) idx)"
      using li pf(1) unfolding gather_def by simp
    with so that have "gather (typicality F x) idx ! j \<le> gather (typicality F x) idx ! li"
      by (rule sorted_nth_mono)
    then have "\<not> typicality F x ! (idx ! li) < typicality F x ! (idx ! j)"
      using j li pf(1) unfolding gather_def by simp
    with nth [OF j] show ?thesis by simp
  qed
  have some: "\<exists>j < length ys. ys ! j \<noteq> NegInf"
  proof -
    have "idx ! 0 < length ys"
      using pf(1,3) n ly by (metis atLeastLessThan_iff length_greater_0_conv nth_mem)
    moreover have "ys ! (idx ! 0) \<noteq> NegInf"
      using upto [of 0] by simp
    ultimately show ?thesis by blast
  qed
  have samp: "\<exists>k < length x. gumbel_sample temperature u ys = Inr k \<and> ys ! k \<noteq> NegInf"
    for temperature u
  proof -
    have "ys \<noteq> []" using ly n by auto
    then obtain k where k: "gumbel_sample temperature u ys = Inr k"
      using gumbel_sample_total by blast
    from gumbel_sample_Inr [OF k] some ly show ?thesis
      using k by auto
  qed
  show "length ys = length x"
    by (rule ly)
  show "let c = typicality F x;
           idx = snd (torch_sort c);
           cum = x_flat_cumsum F x;
           li = last_ind F mass x
       in mset idx = mset [0..<length x] \<and> sorted (gather c idx) \<and>
          li = length (filter (\<lambda>v. v < mass) cum) \<and>
          (sorted cum \<longrightarrow> (\<forall>j < li. cum ! j < mass) \<and> mass \<le> cum ! li) \<and>
          (\<forall>j < length x. ys ! (idx ! j) =
             (if c ! (idx ! li) < c ! (idx ! j) \<and> \<not> (1 < mt \<and> j < mt)
              then NegInf else Val (x ! (idx ! j)))) \<and>
          (\<forall>j \<le> li. ys ! (idx ! j) = Val (x ! (idx ! j))) \<and>
          (\<forall>temperature u. \<exists>k < length x.
             gumbel_sample temperature u ys = Inr k \<and> ys ! k \<noteq> NegInf)"
    unfolding Let_def idx_def [symmetric] li_def [symmetric] cum_def [symmetric]
    using p so lk below reach nth upto samp by blast
qed

theorem typical_filter_retained_witness:
  "typical_filter no_roundoff (1 / 5) 1 [0, ln 3] = Inr [NegInf, Val (ln 3)] \<and>
   last_ind no_roundoff (1 / 5) [0, ln 3] = 0 \<and>
   x_flat_cumsum no_roundoff [0, ln 3] = cumsum (gather (softmax [0, ln 3]) [1, 0]) \<and>
   sorted (x_flat_cumsum no_roundoff [0, ln 3]) \<and>
   1 / 5 \<le> x_flat_cumsum no_roundoff [0, ln 3] ! 0 \<and>
   (\<exists>k < length [0, ln (3::real)].
      gumbel_sample 1 (\<lambda>k. 1 / 2) [NegInf, Val (ln 3)] = Inr k \<and> [NegInf, Val (ln 3)] ! k \<noteq> NegInf) \<and>
   last_ind single_roundoff 1 [0, 2] = 2 \<and>
   \<not> (\<exists>ys. typical_filter single_roundoff 1 1 [0, 2] = Inr ys)"
proof -
  note t = typical_filter_retained [of no_roundoff "1 / 5" 1 "[0, ln 3]" "[NegInf, Val (ln 3)]",
      unfolded Let_def]
  note s = typical_filter_retained [of single_roundoff 1 1 "[0, 2]" "[]"]
  have z: "[0, ln 3] \<noteq> [] \<and> (\<forall>g k. cumsum_err no_roundoff g k = 0)"
    unfolding no_roundoff_def by simp
  have i: "snd (torch_sort (typicality no_roundoff [0, ln 3])) = [1, 0]"
    unfolding typicality_ln3 torch_sort_ln3 by simp
  from t z have c: "x_flat_cumsum no_roundoff [0, ln 3]
        = cumsum (gather (softmax [0, ln 3]) [1, 0])"
      and so: "sorted (x_flat_cumsum no_roundoff [0, ln 3])"
    unfolding i by blast+
  from t typical_filter_ln3 so
  have r: "1 / 5 \<le> x_flat_cumsum no_roundoff [0, ln 3] ! last_ind no_roundoff (1 / 5) [0, ln 3]"
    and g: "\<forall>temperature u. \<exists>k < length [0, ln (3::real)].
       gumbel_sample temperature u [NegInf, Val (ln 3)] = Inr k \<and> [NegInf, Val (ln 3)] ! k \<noteq> NegInf"
    by blast+
  from g have g1: "\<exists>k < length [0, ln (3::real)].
      gumbel_sample 1 (\<lambda>k. 1 / 2) [NegInf, Val (ln 3)] = Inr k \<and> [NegInf, Val (ln 3)] ! k \<noteq> NegInf"
    by blast
  from s have n: "\<not> (\<exists>ys. typical_filter single_roundoff 1 1 [0, 2] = Inr ys)"
    unfolding last_ind_02_single by simp
  from typical_filter_ln3 last_ind_ln3 c so r g1 last_ind_02_single n show ?thesis
    unfolding last_ind_ln3 by blast
qed

text \<open>C2, as the specification words it, fails: on a row of two equal logits the cutoff
  is the first class of the order, and the code keeps the second class too, its distance
  being equal to the first one's.\<close>

theorem typical_filter_exact_counterexample:
  "typical_filter no_roundoff (1 / 5) 1 [0, 0] \<noteq> Inr (typical_filter_spec (1 / 5) [0, 0])"
  unfolding typical_filter_00 typical_filter_spec_00 by simp

text \<open>C3, as the code has it. The filter returns exactly when the number \<open>last_ind\<close> of
  cumulative probabilities below the mass is a position of the row, which is the case on
  every non-empty row for a mass that stays below 1 by at least the rounding error \<open>e\<close>
  of the cumulative sum. When it returns and \<open>typical_min_tokens\<close> is at least 1, at
  least \<open>min typical_min_tokens num_labels\<close> classes keep their score, and at most the
  remaining classes are set to negative infinity.\<close>

theorem typical_filter_keeps:
  "((\<exists>ys. typical_filter F mass mt x = Inr ys) = (last_ind F mass x < length x)) \<and>
   (x \<noteq> [] \<and> (\<forall>g k. \<bar>cumsum_err F g k\<bar> \<le> e) \<and> mass \<le> 1 - e \<longrightarrow>
      last_ind F mass x < length x) \<and>
   (typical_filter F mass mt x = Inr ys \<and> 1 \<le> mt \<longrightarrow>
      length ys = length x \<and>
      min mt (length x) \<le> kept_count ys \<and>
      removed_count ys \<le> length x - min mt (length x))"
proof (intro conjI impI)
  show "(\<exists>ys. typical_filter F mass mt x = Inr ys) = (last_ind F mass x < length x)"
    by (rule typical_filter_returns)
next
  assume "x \<noteq> [] \<and> (\<forall>g k. \<bar>cumsum_err F g k\<bar> \<le> e) \<and> mass \<le> 1 - e"
  then show "last_ind F mass x < length x"
    using last_ind_less_err by blast
next
  assume a: "typical_filter F mass mt x = Inr ys \<and> 1 \<le> mt"
  define idx where "idx = snd (torch_sort (typicality F x))"
  define S where "S = sorted_removal F mass mt x"
  define R where "R = scatter S idx S"
  have li: "last_ind F mass x < length x"
    using a typical_filter_Inr_less by blast
  then have n: "x \<noteq> []" by auto
  have lS: "length S = length x"
    unfolding S_def by (rule length_sorted_removal)
  have lR: "length R = length x"
    unfolding R_def by (simp add: scatter_length lS)
  have "typical_filter F mass mt x = Inr (map2 (\<lambda>v r. if r then NegInf else Val v) x R)"
    unfolding R_def S_def idx_def using li by (rule typical_filter_eq)
  with a have ys: "ys = map2 (\<lambda>v r. if r then NegInf else Val v) x R"
    by simp
  have "mset R = mset S"
    unfolding R_def idx_def using sort_perm lS lS by (rule scatter_perm)
  then have "mset (filter Not R) = mset (filter Not S)"
    by (simp only: mset_filter)
  then have c: "length (filter Not R) = length (filter Not S)"
    by (metis size_mset)
  have k: "length (filter (\<lambda>s. s \<noteq> NegInf) ys) = length (filter Not R)"
    unfolding ys using lR by (intro kept_count_zip) simp
  have r: "length (filter (\<lambda>s. s = NegInf) ys) = length (filter id R)"
    unfolding ys using lR by (intro removed_count_zip) simp
  have m: "min mt (length x) \<le> length (filter Not S)"
    unfolding S_def using n li by (rule sorted_removal_kept) (use a in simp)
  show ly: "length ys = length x"
    unfolding ys using lR by simp
  from count_split [of R] lR c m have "length (filter id R) \<le> length x - min mt (length x)"
    by linarith
  with k r c m show "min mt (length x) \<le> kept_count ys"
    and "removed_count ys \<le> length x - min mt (length x)"
    unfolding kept_count_def removed_count_def by simp_all
qed

theorem typical_filter_keeps_witness:
  "typical_filter no_roundoff (1 / 5) 1 [0, ln 3] = Inr [NegInf, Val (ln 3)] \<and>
   last_ind no_roundoff (1 / 5) [0, ln 3] < length [0, ln (3::real)] \<and>
   min 1 (length [0, ln (3::real)]) \<le> kept_count [NegInf, Val (ln 3)] \<and>
   removed_count [NegInf, Val (ln 3)] \<le> length [0, ln (3::real)] - min 1 (length [0, ln (3::real)]) \<and>
   kept_count [NegInf, Val (ln 3)] = 1"
proof -
  note t = typical_filter_keeps [of no_roundoff "1 / 5" 1 "[0, ln 3]" 0 "[NegInf, Val (ln 3)]"]
  have z: "[0, ln 3] \<noteq> [] \<and> (\<forall>g k. \<bar>cumsum_err no_roundoff g k\<bar> \<le> 0) \<and> (1 / 5 :: real) \<le> 1 - 0"
    unfolding no_roundoff_def by simp
  from t z have l: "last_ind no_roundoff (1 / 5) [0, ln 3] < length [0, ln (3::real)]"
    by blast
  have o: "typical_filter no_roundoff (1 / 5) 1 [0, ln 3] = Inr [NegInf, Val (ln 3)]
       \<and> (1::nat) \<le> 1"
    using typical_filter_ln3 by simp
  from t o have k: "min 1 (length [0, ln (3::real)]) \<le> kept_count [NegInf, Val (ln 3)]"
    and r: "removed_count [NegInf, Val (ln 3)]
            \<le> length [0, ln (3::real)] - min 1 (length [0, ln (3::real)])"
    by blast+
  have c: "kept_count [NegInf, Val (ln 3)] = 1"
    unfolding kept_count_def by simp
  from typical_filter_ln3 l k r c show ?thesis
    by blast
qed

text \<open>C3, as stated, fails in two ways. When \<open>typical_min_tokens\<close> exceeds the number of
  classes, a row of one class keeps one class, not two. And at a mass of 1.0 the filter
  need not return at all: in single precision the cumulative probabilities of the row
  \<open>[0, 2]\<close> stay below 1 and the filter ends in an index error.\<close>

theorem typical_filter_min_tokens_counterexample:
  "typical_filter no_roundoff (1 / 5) 2 [0] = Inr [Val 0] \<and> kept_count [Val 0] < 2 \<and>
   typical_filter single_roundoff 1 1 [0, 2] = Inl IndexError"
  unfolding typical_filter_0 typical_filter_02_single kept_count_def by simp

section \<open>The noise schedule: properties\<close>

lemma cos_quarter_range: "0 \<le> r \<Longrightarrow> r \<le> 1 \<Longrightarrow> 0 \<le> cos (r * pi / 2) \<and> cos (r * pi / 2) \<le> 1"
proof -
  assume a: "0 \<le> r" "r \<le> 1"
  have "r * pi / 2 \<le> pi / 2"
    using a pi_gt_zero by (simp add: mult_left_le_one_le)
  moreover have "- (pi / 2) \<le> r * pi / 2"
    using a pi_gt_zero by (smt (verit) divide_nonneg_pos mult_nonneg_nonneg)
  ultimately have "0 \<le> cos (r * pi / 2)"
    by (rule cos_ge_zero [OF _ _, rotated])
  then show ?thesis
    by simp
qed


lemma gamma_range:
  "cos_err F r = 0 \<Longrightarrow> 0 \<le> r \<Longrightarrow> r \<le> 1 \<Longrightarrow> 0 \<le> gamma F r \<and> gamma F r \<le> 1"
  unfolding gamma_def using cos_quarter_range [of r] by simp

lemma gamma_single_one: "gamma single_roundoff 1 = - (4371138828673793 / 10 ^ 23)"
  unfolding gamma_def single_roundoff_def by simp




section \<open>Re-corruption: properties\<close>

lemma add_noise_props:
  "(add_noise F L u raw x r rx = Inr (x', m) \<longrightarrow>
      shape3 x' = shape3 x \<and> shape3 m = shape3 x \<and>
      (\<forall>b h w. inb x b h w \<longrightarrow>
         (cell m b h w = 0 \<or> cell m b h w = 1) \<and>
         (cell m b h w = 0 \<longrightarrow> cell x' b h w = cell x b h w) \<and>
         (cell m b h w = 1 \<longrightarrow>
            cell x' b h w =
              (case rx of Some g \<Rightarrow> cell g b h w | None \<Rightarrow> randint L (raw b h w))) \<and>
         (rx = None \<longrightarrow> 0 \<le> randint L (raw b h w) \<and> randint L (raw b h w) < int L) \<and>
         cell m b h w = bernoulli (gamma F (r ! b)) (u b h w))) \<and>
   (length r = length x \<and> (\<forall>q \<in> set r. 0 \<le> gamma F q \<and> gamma F q \<le> 1) \<and>
    (case rx of None \<Rightarrow> 0 < L | Some g \<Rightarrow> shape3 g = shape3 x) \<longrightarrow>
      (\<exists>res. add_noise F L u raw x r rx = Inr res)) \<and>
   (length r = length x \<and> (\<exists>q \<in> set r. gamma F q < 0 \<or> 1 < gamma F q) \<longrightarrow>
      add_noise F L u raw x r rx = Inl ValueError)"
proof (intro conjI impI)
  assume a: "add_noise F L u raw x r rx = Inr (x', m)"
  note f = add_noise_Inr [OF a]
  define src where "src = (case rx of None \<Rightarrow> like x (\<lambda>b h w. randint L (raw b h w)) | Some g \<Rightarrow> g)"
  have ss: "shape3 src = shape3 x"
    using f(5) unfolding src_def by (cases rx) (simp_all add: shape3_like)
  show sm: "shape3 m = shape3 x"
    unfolding f(3) by (rule shape3_like)
  have x': "x' = gmap2 (+) (gmap2 (\<lambda>a m. a * (1 - m)) x m) (gmap2 (*) src m)"
    using f(6) unfolding src_def .
  show "shape3 x' = shape3 x"
    unfolding x' using ss sm by (rule add_noise_shape)
  show "\<forall>b h w. inb x b h w \<longrightarrow>
         (cell m b h w = 0 \<or> cell m b h w = 1) \<and>
         (cell m b h w = 0 \<longrightarrow> cell x' b h w = cell x b h w) \<and>
         (cell m b h w = 1 \<longrightarrow>
            cell x' b h w =
              (case rx of Some g \<Rightarrow> cell g b h w | None \<Rightarrow> randint L (raw b h w))) \<and>
         (rx = None \<longrightarrow> 0 \<le> randint L (raw b h w) \<and> randint L (raw b h w) < int L) \<and>
         cell m b h w = bernoulli (gamma F (r ! b)) (u b h w)"
  proof (intro allI impI)
    fix b h w assume i: "inb x b h w"
    have "b < length r"
      using i f(1) unfolding inb_def by simp
    then have g: "map (gamma F) r ! b = gamma F (r ! b)"
      by simp
    have cm: "cell m b h w = bernoulli (gamma F (r ! b)) (u b h w)"
      unfolding f(3) g [symmetric] using i by (rule cell_like)
    have cx: "cell x' b h w = cell x b h w * (1 - cell m b h w) + cell src b h w * cell m b h w"
      unfolding x' using ss sm i by (rule add_noise_cells)
    have cs: "cell src b h w = (case rx of Some g \<Rightarrow> cell g b h w | None \<Rightarrow> randint L (raw b h w))"
      unfolding src_def using i by (cases rx) (simp_all add: cell_like)
    have m01: "cell m b h w = 0 \<or> cell m b h w = 1"
      unfolding cm bernoulli_def by simp
    have rr: "rx = None \<longrightarrow> 0 \<le> randint L (raw b h w) \<and> randint L (raw b h w) < int L"
      using f(4) randint_range by blast
    show "(cell m b h w = 0 \<or> cell m b h w = 1) \<and>
         (cell m b h w = 0 \<longrightarrow> cell x' b h w = cell x b h w) \<and>
         (cell m b h w = 1 \<longrightarrow>
            cell x' b h w =
              (case rx of Some g \<Rightarrow> cell g b h w | None \<Rightarrow> randint L (raw b h w))) \<and>
         (rx = None \<longrightarrow> 0 \<le> randint L (raw b h w) \<and> randint L (raw b h w) < int L) \<and>
         cell m b h w = bernoulli (gamma F (r ! b)) (u b h w)"
      using m01 rr cx cs cm by auto
  qed
next
  assume w: "length r = length x \<and> (\<forall>q \<in> set r. 0 \<le> gamma F q \<and> gamma F q \<le> 1) \<and>
    (case rx of None \<Rightarrow> 0 < L | Some g \<Rightarrow> shape3 g = shape3 x)"
  then have "list_all (\<lambda>q. 0 \<le> q \<and> q \<le> 1) (map (gamma F) r)"
    by (simp add: list_all_iff)
  then show "\<exists>res. add_noise F L u raw x r rx = Inr res"
    using w unfolding add_noise_def Let_def by (cases rx) auto
next
  assume w: "length r = length x \<and> (\<exists>q \<in> set r. gamma F q < 0 \<or> 1 < gamma F q)"
  then obtain q where "q \<in> set r" and "\<not> (0 \<le> gamma F q \<and> gamma F q \<le> 1)"
    by fastforce
  then have "\<not> list_all (\<lambda>q. 0 \<le> q \<and> q \<le> 1) (map (gamma F) r)"
    unfolding list_all_iff by auto
  then show "add_noise F L u raw x r rx = Inl ValueError"
    using w unfolding add_noise_def Let_def by simp
qed

lemma gamma_single_half:
  "gamma single_roundoff 0 = 1" "gamma single_roundoff (1 / 2) = sqrt 2 / 2"
proof -
  show "gamma single_roundoff 0 = 1"
    unfolding gamma_def single_roundoff_def by simp
  have "1 / 2 * pi / 2 = pi / 4"
    by simp
  then show "gamma single_roundoff (1 / 2) = sqrt 2 / 2"
    unfolding gamma_def single_roundoff_def by (simp add: cos_45)
qed

lemma sqrt2_half_bounds:
  "0 \<le> sqrt 2 / 2" "sqrt 2 / 2 \<le> 1" "\<not> 9 / 10 < sqrt 2 / 2" "sqrt 2 \<le> 2" "\<not> 9 < sqrt 2 * 5"
proof -
  show "0 \<le> sqrt 2 / 2"
    by simp
  have s: "sqrt 2 < 9 / 5"
    by (rule real_less_lsqrt) (simp_all add: power2_eq_square)
  from s show "sqrt 2 / 2 \<le> 1"
    by linarith
  from s show "\<not> 9 / 10 < sqrt 2 / 2"
    by linarith
  from s show "sqrt 2 \<le> 2"
    by linarith
  from s show "\<not> 9 < sqrt 2 * 5"
    by linarith
qed

text \<open>C6. Whenever \<open>add_noise\<close> returns, its mask holds only 0 and 1, the returned grid
  equals \<open>x\<close> wherever the mask is 0, and wherever the mask is 1 it holds the value of
  \<open>random_x\<close> when that is supplied and otherwise a token drawn in \<open>[0, num_labels)\<close>;
  the mask is the Bernoulli draw with the computed probability \<open>gamma r\<close> of the batch
  element. This holds for every grid, every \<open>r\<close> and every rounding of the cosine.
  With one progress value per batch element, \<open>add_noise\<close> returns when every computed
  probability lies in the unit interval (and \<open>random_x\<close>, when supplied, has the shape of
  \<open>x\<close>), and ends in the error of \<^verbatim>\<open>torch.bernoulli\<close> when one does not, as at
  \<open>r = 1.0\<close> in single precision.\<close>

theorem add_noise_spec:
  "(add_noise F L u raw x r rx = Inr (x', m) \<longrightarrow>
      shape3 x' = shape3 x \<and> shape3 m = shape3 x \<and>
      (\<forall>b h w. inb x b h w \<longrightarrow>
         (cell m b h w = 0 \<or> cell m b h w = 1) \<and>
         (cell m b h w = 0 \<longrightarrow> cell x' b h w = cell x b h w) \<and>
         (cell m b h w = 1 \<longrightarrow>
            cell x' b h w =
              (case rx of Some g \<Rightarrow> cell g b h w | None \<Rightarrow> randint L (raw b h w))) \<and>
         (rx = None \<longrightarrow> 0 \<le> randint L (raw b h w) \<and> randint L (raw b h w) < int L) \<and>
         cell m b h w = bernoulli (gamma F (r ! b)) (u b h w))) \<and>
   (length r = length x \<and> (\<forall>q \<in> set r. 0 \<le> gamma F q \<and> gamma F q \<le> 1) \<and>
    (case rx of None \<Rightarrow> 0 < L | Some g \<Rightarrow> shape3 g = shape3 x) \<longrightarrow>
      (\<exists>res. add_noise F L u raw x r rx = Inr res)) \<and>
   (length r = length x \<and> (\<exists>q \<in> set r. gamma F q < 0 \<or> 1 < gamma F q) \<longrightarrow>
      add_noise F L u raw x r rx = Inl ValueError)"
  by (rule add_noise_props)

theorem add_noise_spec_witness:
  "add_noise single_roundoff 4 (\<lambda>b h w. if b = 0 then 1 / 2 else 9 / 10) (\<lambda>b h w. 6)
       [[[5]], [[7]]] [0, 1 / 2] None
     = Inr ([[[2]], [[7]]], [[[1]], [[0]]]) \<and>
   inb [[[5]], [[7::int]]] 0 0 0 \<and> inb [[[5]], [[7::int]]] 1 0 0 \<and>
   cell [[[1]], [[0::int]]] 0 0 0 = 1 \<and> cell [[[2]], [[7::int]]] 0 0 0 = randint 4 6 \<and>
   cell [[[1]], [[0::int]]] 1 0 0 = 0 \<and> cell [[[2]], [[7::int]]] 1 0 0 = cell [[[5]], [[7::int]]] 1 0 0 \<and>
   shape3 [[[2]], [[7::int]]] = shape3 [[[5]], [[7::int]]] \<and>
   cell [[[1]], [[0::int]]] 1 0 0 = bernoulli (gamma single_roundoff (1 / 2)) (9 / 10) \<and>
   gamma single_roundoff 1 < 0 \<and>
   add_noise single_roundoff 4 (\<lambda>b h w. 1 / 2) (\<lambda>b h w. 6) [[[5]]] [1] None = Inl ValueError"
proof -
  have e: "add_noise single_roundoff 4 (\<lambda>b h w. if b = 0 then 1 / 2 else 9 / 10) (\<lambda>b h w. 6)
       [[[5]], [[7]]] [0, 1 / 2] None
     = Inr ([[[2]], [[7]]], [[[1]], [[0]]])"
    unfolding add_noise_def Let_def
    by (simp add: like_def gmap2_def bernoulli_def randint_def gamma_single_half
        sqrt2_half_bounds)
  have i: "inb [[[5]], [[7::int]]] 0 0 0" "inb [[[5]], [[7::int]]] 1 0 0"
    by (simp_all add: inb_def)
  have m: "cell [[[1]], [[0::int]]] 0 0 0 = 1" "cell [[[1]], [[0::int]]] 1 0 0 = 0"
    by (simp_all add: cell_def)
  have n: "gamma single_roundoff 1 < 0"
    unfolding gamma_single_one by simp
  from add_noise_spec [of single_roundoff 4 "\<lambda>b h w. if b = 0 then 1 / 2 else 9 / 10"
      "\<lambda>b h w. 6" "[[[5]], [[7]]]" "[0, 1 / 2]" None "[[[2]], [[7]]]" "[[[1]], [[0]]]"] e
  have p: "shape3 [[[2]], [[7::int]]] = shape3 [[[5]], [[7::int]]] \<and>
      (\<forall>b h w. inb [[[5]], [[7::int]]] b h w \<longrightarrow>
         (cell [[[1]], [[0::int]]] b h w = 0 \<longrightarrow>
            cell [[[2]], [[7::int]]] b h w = cell [[[5]], [[7::int]]] b h w) \<and>
         (cell [[[1]], [[0::int]]] b h w = 1 \<longrightarrow>
            cell [[[2]], [[7::int]]] b h w = randint 4 6) \<and>
         cell [[[1]], [[0::int]]] b h w
           = bernoulli (gamma single_roundoff ([0, 1 / 2] ! b)) (if b = 0 then 1 / 2 else 9 / 10))"
    by simp
  from p i(2) have q: "cell [[[1]], [[0::int]]] 1 0 0
       = bernoulli (gamma single_roundoff (1 / 2)) (9 / 10)"
    by fastforce
  from add_noise_spec [of single_roundoff 4 "\<lambda>b h w. 1 / 2" "\<lambda>b h w. 6" "[[[5]]]" "[1]" None] n
  have v: "add_noise single_roundoff 4 (\<lambda>b h w. 1 / 2) (\<lambda>b h w. 6) [[[5]]] [1] None
       = Inl ValueError"
    by simp
  from p i m e q n v show ?thesis
    by blast
qed

section \<open>Facts about the sampling loop\<close>

lemma bind_e_Inl [simp]: "bind_e (Inl e) f = Inl e"
  unfolding bind_e_def by simp

lemma bind_e_Inr [simp]: "bind_e (Inr v) f = f v"
  unfolding bind_e_def by simp

lemma bind_e_eq_Inr: "(bind_e r f = Inr y) = (\<exists>v. r = Inr v \<and> f v = Inr y)"
  by (cases r) simp_all

lemma sequence_eq_Inr: "(sequence rs = Inr vs) = (rs = map Inr vs)"
proof (induction rs arbitrary: vs)
  case Nil
  then show ?case by auto
next
  case (Cons r rs)
  show ?case
  proof (cases r)
    case (Inl e)
    then show ?thesis by (cases vs) auto
  next
    case (Inr v)
    show ?thesis
    proof (cases "sequence rs")
      case (Inl e)
      with Cons.IH have "\<And>ws. rs \<noteq> map Inr ws" by simp
      with Inl Inr show ?thesis by (cases vs) auto
    next
      case s: (Inr ws)
      have "rs = map Inr ws"
        using Cons.IH [of ws] s by simp
      with s Inr show ?thesis by (cases vs) auto
    qed
  qed
qed

lemma map_eq_map_Inr:
  assumes "\<And>x y. (F x = Inr y) = (x = G y)"
  shows "(map F xs = map Inr ys) = (xs = map G ys)"
proof (induction xs arbitrary: ys)
  case Nil
  then show ?case by auto
next
  case (Cons x xs)
  then show ?case
    using assms by (cases ys) auto
qed

lemma gsequence_eq_Inr: "(gsequence g = Inr g') = (g = gmap Inr g')"
proof -
  have row: "(sequence (map sequence plane) = Inr plane') = (plane = map (map Inr) plane')"
    for plane :: "(error + 'a) list list" and plane'
    unfolding sequence_eq_Inr by (rule map_eq_map_Inr) (rule sequence_eq_Inr)
  have "(map (\<lambda>plane. sequence (map sequence plane)) g = map Inr g')
            = (g = map (map (map Inr)) g')"
    by (rule map_eq_map_Inr) (rule row)
  then show ?thesis
    unfolding gsequence_def gmap_def sequence_eq_Inr .
qed

lemma shape3_gmap: "shape3 (gmap f g) = shape3 g"
  unfolding shape3_def gmap_def by (simp add: comp_def)

lemma inb_gmap: "inb (gmap f g) b h w = inb g b h w"
  by (rule inb_shape3) (rule shape3_gmap)

lemma cell_gmap: "inb g b h w \<Longrightarrow> cell (gmap f g) b h w = f (cell g b h w)"
  unfolding inb_def cell_def gmap_def by simp

lemma gsequence_Inr:
  assumes "gsequence g = Inr g'"
  shows "shape3 g' = shape3 g" and "inb g b h w \<Longrightarrow> cell g b h w = Inr (cell g' b h w)"
proof -
  from assms have e: "g = gmap Inr g'"
    by (simp add: gsequence_eq_Inr)
  show "shape3 g' = shape3 g"
    unfolding e by (simp add: shape3_gmap)
  show "cell g b h w = Inr (cell g' b h w)" if "inb g b h w"
    using that unfolding e by (simp add: inb_gmap cell_gmap)
qed

lemma blend_Inr:
  assumes "blend a m b = Inr g"
  shows "shape3 a = shape3 m" and "shape3 b = shape3 m" and "shape3 g = shape3 m"
    and "inb m i h w \<Longrightarrow> cell g i h w = cell a i h w * cell m i h w + (1 - cell m i h w) * cell b i h w"
proof -
  from assms show sa: "shape3 a = shape3 m" and sb: "shape3 b = shape3 m"
    unfolding blend_def by (auto split: if_splits)
  from assms sa sb have g: "g = gmap2 (+) (gmap2 (*) a m) (gmap2 (\<lambda>m v. (1 - m) * v) m b)"
    unfolding blend_def by simp
  have s1: "shape3 (gmap2 (*) a m) = shape3 m"
    using sa by (simp add: shape3_gmap2)
  have s2: "shape3 (gmap2 (\<lambda>m v. (1 - m) * v) m b) = shape3 m"
    using sb by (simp add: shape3_gmap2)
  show "shape3 g = shape3 m"
    unfolding g using s1 s2 by (simp add: shape3_gmap2)
  show "cell g i h w = cell a i h w * cell m i h w + (1 - cell m i h w) * cell b i h w"
    if "inb m i h w"
  proof -
    have ia: "inb a i h w" using inb_shape3 [OF sa] that by simp
    have i1: "inb (gmap2 (*) a m) i h w" using inb_shape3 [OF s1] that by simp
    show ?thesis
      unfolding g using s1 s2 sa sb that ia i1 by (simp add: cell_gmap2)
  qed
qed

lemma blend_total:
  "shape3 a = shape3 m \<Longrightarrow> shape3 b = shape3 m \<Longrightarrow> \<exists>g. blend a m b = Inr g"
  unfolding blend_def by simp

lemma typical_filter_length:
  assumes "typical_filter F mass mt x = Inr ys"
  shows "length ys = length x"
proof -
  have lc: "length (fst (torch_sort (typicality F x))) = length x"
    using sort_values [of F x] perm_upt_facts(1) [OF sort_perm [of F x]] by simp
  have "last_ind F mass x < length x"
    using assms lc unfolding typical_filter_def Let_def
    by (auto simp: case_prod_beta split: if_splits)
  from typical_filter_nth [OF this this, of mt] assms show ?thesis
    by auto
qed

lemma sample_row_Inr:
  assumes "sample_row F cfg temp u row = Inr k"
  shows "0 \<le> k \<and> k < int (length row)"
proof -
  from assms obtain t j where t: "(if typical_filtering cfg
             then typical_filter F (typical_mass cfg) (typical_min_tokens cfg) row
             else Inr (map Val row)) = Inr t"
    and j: "gumbel_sample temp u t = Inr j" and k: "k = int j"
    unfolding sample_row_def by (auto simp: bind_e_eq_Inr)
  from t have "length t = length row"
    by (auto split: if_splits dest: typical_filter_length)
  with gumbel_sample_Inr(1) [OF j] k show ?thesis
    by simp
qed

lemma sample_row_total:
  assumes "row \<noteq> []"
    and "typical_filtering cfg \<longrightarrow> last_ind F (typical_mass cfg) row < length row"
  shows "\<exists>k. sample_row F cfg temp u row = Inr k"
proof -
  obtain t where t: "(if typical_filtering cfg
             then typical_filter F (typical_mass cfg) (typical_min_tokens cfg) row
             else Inr (map Val row)) = Inr t" and l: "length t = length row"
  proof (cases "typical_filtering cfg")
    case True
    with assms have "last_ind F (typical_mass cfg) row < length row"
      by simp
    from typical_filter_nth [OF this this, of "typical_min_tokens cfg"] True that
    show ?thesis by auto
  next
    case False
    with that show ?thesis by simp
  qed
  from l assms(1) have "t \<noteq> []" by auto
  from gumbel_sample_total [OF this, of temp u] t show ?thesis
    unfolding sample_row_def by auto
qed

lemma sample_tokens_Inr:
  assumes "sample_tokens F cfg temp u logits = Inr x1"
  shows "shape3 x1 = shape3 logits"
    and "inb logits b h w \<Longrightarrow>
         sample_row F cfg temp (u b h w) (cell logits b h w) = Inr (cell x1 b h w)"
proof -
  note g = gsequence_Inr [OF assms [unfolded sample_tokens_def]]
  show "shape3 x1 = shape3 logits"
    using g(1) by (simp add: shape3_like)
  show "sample_row F cfg temp (u b h w) (cell logits b h w) = Inr (cell x1 b h w)"
    if "inb logits b h w"
    using g(2) [of b h w] that by (simp add: inb_like cell_like)
qed

lemma grid_ext:
  assumes "shape3 a = shape3 b" and "\<And>i h w. inb a i h w \<Longrightarrow> cell a i h w = cell b i h w"
  shows "a = b"
proof (rule nth_equalityI)
  show l: "length a = length b"
    using assms(1) unfolding shape3_def by (metis length_map)
  fix i assume i: "i < length a"
  have r: "map length (a ! i) = map length (b ! i)"
    using assms(1) l i unfolding shape3_def by (metis nth_map)
  show "a ! i = b ! i"
  proof (rule nth_equalityI)
    show l2: "length (a ! i) = length (b ! i)"
      using r by (metis length_map)
    fix h assume h: "h < length (a ! i)"
    have l3: "length (a ! i ! h) = length (b ! i ! h)"
      using r h l2 by (metis nth_map)
    show "a ! i ! h = b ! i ! h"
    proof (rule nth_equalityI)
      show "length (a ! i ! h) = length (b ! i ! h)" by (rule l3)
      fix w assume "w < length (a ! i ! h)"
      with i h have "inb a i h w" unfolding inb_def by simp
      from assms(2) [OF this] show "a ! i ! h ! w = b ! i ! h ! w"
        unfolding cell_def .
    qed
  qed
qed

lemma sample_tokens_total:
  assumes "\<And>b h w. inb logits b h w \<Longrightarrow> cell logits b h w \<noteq> []"
    and "\<And>b h w. inb logits b h w \<Longrightarrow> typical_filtering cfg \<longrightarrow>
           last_ind F (typical_mass cfg) (cell logits b h w) < length (cell logits b h w)"
  shows "\<exists>x1. sample_tokens F cfg temp u logits = Inr x1"
proof -
  define G where "G = like logits (\<lambda>b h w. sample_row F cfg temp (u b h w) (cell logits b h w))"
  define x1 where "x1 = gmap projr G"
  have "G = gmap Inr x1"
  proof (rule grid_ext)
    show "shape3 G = shape3 (gmap Inr x1)"
      unfolding x1_def by (simp add: shape3_gmap)
  next
    fix i h w assume i: "inb G i h w"
    then have il: "inb logits i h w"
      unfolding G_def by (simp add: inb_like)
    from sample_row_total [OF assms(1) [OF il] assms(2) [OF il], of temp "u i h w"]
    obtain k where "sample_row F cfg temp (u i h w) (cell logits i h w) = Inr k" ..
    then have "cell G i h w = Inr k"
      unfolding G_def using il by (simp add: cell_like)
    then show "cell G i h w = cell (gmap Inr x1) i h w"
      unfolding x1_def using i by (simp add: cell_gmap inb_gmap)
  qed
  then have "gsequence G = Inr x1"
    by (simp add: gsequence_eq_Inr)
  then show ?thesis
    unfolding sample_tokens_def G_def by blast
qed

lemma guided_logits_mode:
  "guided_logits M (cfg\<lparr>renoise_mode := s\<rparr>) = guided_logits M cfg"
  unfolding guided_logits_def Let_def
  by (intro ext) (simp cong: if_cong option.case_cong)

lemma sample_row_mode: "sample_row F (cfg\<lparr>renoise_mode := s\<rparr>) = sample_row F cfg"
  unfolding sample_row_def by (intro ext) (simp cong: if_cong)

lemma sample_tokens_mode: "sample_tokens F (cfg\<lparr>renoise_mode := s\<rparr>) = sample_tokens F cfg"
  unfolding sample_tokens_def sample_row_mode ..

lemma temperatures_mode: "temperatures (cfg\<lparr>renoise_mode := s\<rparr>) = temperatures cfg"
  unfolding temperatures_def by simp

lemma denoise_step_mode:
  "denoise_step M (cfg\<lparr>renoise_mode := s\<rparr>) D c cf m init_x i x
   = denoise_step M cfg D c cf m init_x i x"
  unfolding denoise_step_def guided_logits_mode sample_tokens_mode temperatures_mode
  by simp

lemma renoise_other_mode:
  assumes "renoise_mode cfg \<noteq> ''start''" and "renoise_mode cfg \<noteq> ''prev''"
  shows "renoise M cfg D c init_x prev_x i x
         = renoise M (cfg\<lparr>renoise_mode := ''rand''\<rparr>) D c init_x prev_x i x"
  using assms unfolding renoise_def by simp

lemma shape3_of_rows:
  assumes "gmap length U = gmap length C"
  shows "shape3 U = shape3 C"
proof -
  have "shape3 U = shape3 (gmap length U)" by (simp add: shape3_gmap)
  also have "\<dots> = shape3 (gmap length C)" by (simp only: assms)
  also have "\<dots> = shape3 C" by (simp add: shape3_gmap)
  finally show ?thesis .
qed

lemma length_of_rows:
  assumes "gmap length U = gmap length C" and "inb C b h w"
  shows "length (cell U b h w) = length (cell C b h w)"
proof -
  have i: "inb U b h w"
    using inb_shape3 [OF shape3_of_rows [OF assms(1)]] assms(2) by simp
  have "length (cell U b h w) = cell (gmap length U) b h w"
    using i by (simp add: cell_gmap)
  also have "\<dots> = cell (gmap length C) b h w" by (simp only: assms(1))
  also have "\<dots> = length (cell C b h w)"
    using assms(2) by (simp add: cell_gmap)
  finally show ?thesis .
qed

lemma cell_gmap2_rows:
  assumes "gmap length U = gmap length C" and "inb C b h w"
  shows "cell (gmap2 (map2 f) U C) b h w = map2 f (cell U b h w) (cell C b h w)"
proof -
  note s = shape3_of_rows [OF assms(1)]
  have i: "inb U b h w"
    using inb_shape3 [OF s] assms(2) by simp
  show ?thesis
    using s i by (rule cell_gmap2)
qed

lemma gamma_pos: "cos_err F r = 0 \<Longrightarrow> 0 \<le> r \<Longrightarrow> r < 1 \<Longrightarrow> 0 < gamma F r"
proof -
  assume z: "cos_err F r = 0" and a: "0 \<le> r" "r < 1"
  have "r * pi / 2 < pi / 2"
    using a pi_gt_zero by simp
  moreover have "0 \<le> r * pi / 2"
    using a pi_gt_zero by simp
  then have "- (pi / 2) < r * pi / 2"
    using pi_gt_zero by linarith
  ultimately have "0 < cos (r * pi / 2)"
    by (intro cos_gt_zero_pi) simp_all
  then show ?thesis
    unfolding gamma_def using z by simp
qed

lemma stub_initial_x:
  "size_hw cfg = (1, 2) \<Longrightarrow>
   initial_x stub_model stub_draws [[1]] (Some [[[0, 1]]]) (Some [[[0, 1]]]) cfg = Inr [[[0, 1]]]"
  unfolding initial_x_def stub_model_def stub_draws_def blend_def full_def shape3_def
    gmap2_def randint_def
  by (simp add: upt_rec)

lemma stub_sample_row:
  assumes "typical_filtering cfg" and "typical_mass cfg = 1 / 5" and "typical_min_tokens cfg = 1"
  shows "sample_row no_roundoff cfg 1 (\<lambda>k. 1 / 2) [0, ln 3] = Inr 1"
proof -
  have f: "typical_filter no_roundoff (typical_mass cfg) (typical_min_tokens cfg) [0, ln 3]
           = Inr [NegInf, Val (ln 3)]"
    by (simp only: assms typical_filter_ln3)
  have g: "gumbel_sample 1 (\<lambda>k. 1 / 2) [NegInf, Val (ln 3)] = Inr 1"
    unfolding gumbel_sample_def argmax_def by (simp add: upt_rec)
  show ?thesis
    unfolding sample_row_def using assms(1) by (simp add: f g)
qed

lemma r_range_2: "r_range 2 (length [[1::real]]) = [[0], [1 / 2]]"
  unfolding r_range_def linspace_def by (simp add: upt_rec)

lemma stub_denoise_step:
  assumes "T cfg = 2" and "temp_range cfg = (1, 1)" and "classifier_free_scale cfg < 0"
    and "typical_filtering cfg" and "typical_mass cfg = 1 / 5" and "typical_min_tokens cfg = 1"
    and "i < 2"
  shows "denoise_step stub_model cfg stub_draws [[1]] None (Some [[[0, 1]]]) [[[0, 1]]] i [[[a, b]]]
         = Inr [[[0, 1]]]"
proof -
  have r: "item (r_range (T cfg) (length [[1::real]])) i = Inr ([[0], [1 / 2]] ! i)"
    unfolding assms(1) r_range_2 item_def using assms(7) by simp
  have t: "item (temperatures cfg) i = Inr 1"
    using assms(1,2,7) unfolding item_def temperatures_def linspace_def by simp
  have g: "guided_logits stub_model cfg [[1]] None rr [[[a, b]]] = Inr [[[[0, ln 3], [0, ln 3]]]]" for rr
    using assms(3) unfolding guided_logits_def stub_model_def gmap_def by simp
  have s: "sample_tokens (roundoff stub_model) cfg 1 (gumbel_u stub_draws i) [[[[0, ln 3], [0, ln 3]]]] = Inr [[[1, 1]]]"
    unfolding sample_tokens_def like_def gsequence_def cell_def stub_draws_def
    using stub_sample_row [OF assms(4,5,6)] by (simp add: upt_rec stub_model_def)
  have b: "restore (Some [[[0, 1]]]) [[[0, 1]]] [[[1, 1]]] = Inr [[[0, 1]]]"
    unfolding restore_def blend_def shape3_def gmap2_def by simp
  show ?thesis
    unfolding denoise_step_def r bind_e_Inr t g s b ..
qed

lemma gamma_half:
  "0 < gamma no_roundoff (1 / 2)" "0 \<le> gamma no_roundoff (1 / 2)" "gamma no_roundoff (1 / 2) \<le> 1"
  using gamma_pos [of no_roundoff "1 / 2"] gamma_range [of no_roundoff "1 / 2"]
  by (simp_all add: no_roundoff_def)

lemma stub_add_noise_some:
  "add_noise no_roundoff 2 (\<lambda>b h w. 0) raw [[[a, b]]] [1 / 2] (Some [[[p, q]]]) = Inr ([[[p, q]]], [[[1, 1]]])"
  unfolding add_noise_def Let_def like_def gmap2_def shape3_def bernoulli_def
  by (simp add: gamma_half upt_rec)

lemma stub_add_noise_none:
  "add_noise no_roundoff 2 (\<lambda>b h w. 0) (\<lambda>b h w. Suc 0) [[[a, b]]] [1 / 2] None = Inr ([[[1, 1]]], [[[1, 1]]])"
  unfolding add_noise_def Let_def like_def gmap2_def shape3_def bernoulli_def randint_def
  by (simp add: gamma_half upt_rec)

lemma stub_renoise_start:
  assumes "T cfg = 2" and "renoise_mode cfg = ''start''"
  shows "renoise stub_model cfg stub_draws [[1]] [[[p, q]]] prev_x 0 [[[a, b]]] = Inr [[[p, q]]]"
proof -
  have r: "item (r_range (T cfg) (length [[1::real]])) (0 + 1) = Inr [1 / 2]"
    unfolding assms(1) r_range_2 item_def by simp
  show ?thesis
    unfolding renoise_def r bind_e_Inr using assms(2)
    by (simp add: stub_model_def stub_draws_def stub_add_noise_some)
qed

lemma stub_renoise_rand:
  assumes "T cfg = 2" and "renoise_mode cfg \<noteq> ''start''" and "renoise_mode cfg \<noteq> ''prev''"
  shows "renoise stub_model cfg stub_draws [[1]] init_x prev_x 0 [[[a, b]]] = Inr [[[1, 1]]]"
proof -
  have r: "item (r_range (T cfg) (length [[1::real]])) (0 + 1) = Inr [1 / 2]"
    unfolding assms(1) r_range_2 item_def by simp
  show ?thesis
    unfolding renoise_def r bind_e_Inr using assms(2,3)
    by (simp add: stub_model_def stub_draws_def stub_add_noise_none)
qed

lemma stub_renoise_last:
  assumes "T cfg = 2"
  shows "renoise stub_model cfg stub_draws [[1]] init_x prev_x 1 x = Inl IndexError"
proof -
  have r: "item (r_range (T cfg) (length [[1::real]])) (1 + 1) = Inl IndexError"
    unfolding assms(1) r_range_2 item_def by simp
  show ?thesis
    unfolding renoise_def r by simp
qed

lemma stub_sample_start:
  "sample stub_model stub_draws [[1]] (Some [[[0, 1]]]) (Some [[[0, 1]]]) stub_config None
   = Inr [[[0, 1]]]"
proof -
  have i: "initial_x stub_model stub_draws [[1]] (Some [[[0, 1]]]) (Some [[[0, 1]]]) stub_config
           = Inr [[[0, 1]]]"
    by (rule stub_initial_x) (simp add: stub_config_def)
  have d: "denoise_step stub_model stub_config stub_draws [[1]] None (Some [[[0, 1]]]) [[[0, 1]]] i [[[0, 1]]]
           = Inr [[[0, 1]]]" if "i < 2" for i
    by (rule stub_denoise_step) (simp_all add: stub_config_def that)
  have r: "renoise stub_model stub_config stub_draws [[1]] [[[0, 1]]] prev_x 0 [[[0, 1]]] = Inr [[[0, 1]]]"
    for prev_x
    by (rule stub_renoise_start) (simp_all add: stub_config_def)
  have b0: "loop_body stub_model stub_config stub_draws [[1]] None (Some [[[0, 1]]]) [[[0, 1]]] 0 [[[0, 1]]]
            = Inr [[[0, 1]]]"
    unfolding loop_body_def d [of 0, simplified] bind_e_Inr
    by (simp add: r)
  have b1: "loop_body stub_model stub_config stub_draws [[1]] None (Some [[[0, 1]]]) [[[0, 1]]] (Suc 0) [[[0, 1]]]
            = Inr [[[0, 1]]]"
    unfolding loop_body_def d [of "Suc 0", simplified] bind_e_Inr
    by (simp add: stub_config_def)
  have t: "T stub_config = 2" "starting_t stub_config = 0"
    by (simp_all add: stub_config_def)
  show ?thesis
    unfolding sample_def i bind_e_Inr t
    by (simp add: b0 b1)
qed

lemma for_range_invariant:
  "for_range body i n x = Inr g \<Longrightarrow> P x \<Longrightarrow>
   (\<forall>j y y'. P y \<longrightarrow> body j y = Inr y' \<longrightarrow> P y') \<Longrightarrow> P g"
proof (induction body i n x rule: for_range.induct)
  case (1 body i n x)
  show ?case
  proof (cases "i < n")
    case True
    with "1.prems"(1) obtain y where y: "body i x = Inr y"
      and r: "for_range body (Suc i) n y = Inr g"
      by (auto simp: bind_e_eq_Inr)
    from "1.prems"(2,3) y have "P y" by blast
    from "1.IH" [OF True r this "1.prems"(3)] show ?thesis .
  next
    case False
    with "1.prems" show ?thesis by simp
  qed
qed

lemma for_range_last:
  assumes "for_range body i n x = Inr g" and "i < n"
  shows "\<exists>y. body (n - 1) y = Inr g"
  using assms
proof (induction body i n x rule: for_range.induct)
  case (1 body i n x)
  from "1.prems" obtain y where y: "body i x = Inr y"
    and r: "for_range body (Suc i) n y = Inr g"
    by (auto simp: bind_e_eq_Inr)
  show ?case
  proof (cases "Suc i < n")
    case True
    from "1.IH" [OF "1.prems"(2) r True] show ?thesis .
  next
    case False
    with "1.prems"(2) have e: "n - 1 = i" by simp
    from False r have "g = y" by simp
    with y e show ?thesis by auto
  qed
qed

lemma restore_fixed:
  assumes "restore (Some m) init x1 = Inr x2" and "inb m b h w" and "cell m b h w = 0"
  shows "cell x2 b h w = cell init b h w"
  using blend_Inr(4) [OF assms(1) [unfolded restore_def option.case] assms(2)] assms(3)
  by simp

lemma restore_shape:
  assumes "restore (Some m) init x1 = Inr x2"
  shows "shape3 x2 = shape3 m" and "shape3 init = shape3 m"
  using blend_Inr(2,3) [OF assms [unfolded restore_def option.case]] by simp_all

lemma denoise_step_restore:
  assumes "denoise_step M cfg D c cf m init i x = Inr x2"
  shows "\<exists>x1. restore m init x1 = Inr x2"
  using assms unfolding denoise_step_def bind_e_eq_Inr by blast

lemma renoise_add_noise:
  assumes "renoise M cfg D c init prev i x2 = Inr x3"
  shows "\<exists>r mk. add_noise (roundoff M) (num_labels M) (bernoulli_u D i) (renoise_raw D i) x2 r
            (if renoise_mode cfg = ''start'' then Some init
             else if renoise_mode cfg = ''prev'' then Some prev else None) = Inr (x3, mk)"
proof -
  from assms obtain r p where
    p: "(if renoise_mode cfg = ''start''
          then add_noise (roundoff M) (num_labels M) (bernoulli_u D i) (renoise_raw D i) x2 r (Some init)
          else if renoise_mode cfg = ''prev''
          then add_noise (roundoff M) (num_labels M) (bernoulli_u D i) (renoise_raw D i) x2 r (Some prev)
          else add_noise (roundoff M) (num_labels M) (bernoulli_u D i) (renoise_raw D i) x2 r None) = Inr p"
    and x3: "x3 = fst p"
    unfolding renoise_def bind_e_eq_Inr by auto
  have e: "p = (x3, snd p)" using x3 by simp
  show ?thesis
  proof (intro exI)
    show "add_noise (roundoff M) (num_labels M) (bernoulli_u D i) (renoise_raw D i) x2 r
            (if renoise_mode cfg = ''start'' then Some init
             else if renoise_mode cfg = ''prev'' then Some prev else None) = Inr (x3, snd p)"
      using p e by (simp split: if_splits)
  qed
qed

lemma renoise_cells:
  assumes "renoise M cfg D c init prev i x2 = Inr x3" and "inb x2 b h w"
  shows "renoise_mode cfg = ''start'' \<Longrightarrow>
           cell x3 b h w = cell x2 b h w \<or> cell x3 b h w = cell init b h w"
    and "renoise_mode cfg \<noteq> ''start'' \<Longrightarrow> renoise_mode cfg = ''prev'' \<Longrightarrow>
           cell x3 b h w = cell x2 b h w \<or> cell x3 b h w = cell prev b h w"
    and "renoise_mode cfg \<noteq> ''start'' \<Longrightarrow> renoise_mode cfg \<noteq> ''prev'' \<Longrightarrow>
           cell x3 b h w = cell x2 b h w \<or>
           (0 \<le> cell x3 b h w \<and> cell x3 b h w < int (num_labels M))"
    and "shape3 x3 = shape3 x2"
proof -
  define rx where "rx = (if renoise_mode cfg = ''start'' then Some init
                   else if renoise_mode cfg = ''prev'' then Some prev else None)"
  from renoise_add_noise [OF assms(1)] obtain r mk where
    a: "add_noise (roundoff M) (num_labels M) (bernoulli_u D i) (renoise_raw D i) x2 r rx = Inr (x3, mk)"
    unfolding rx_def by blast
  from add_noise_props [of "roundoff M" "num_labels M" "bernoulli_u D i" "renoise_raw D i" x2 r rx x3 mk] a
  have s: "shape3 x3 = shape3 x2"
    and p: "\<forall>b h w. inb x2 b h w \<longrightarrow>
         (cell mk b h w = 0 \<or> cell mk b h w = 1) \<and>
         (cell mk b h w = 0 \<longrightarrow> cell x3 b h w = cell x2 b h w) \<and>
         (cell mk b h w = 1 \<longrightarrow>
            cell x3 b h w =
              (case rx of Some g \<Rightarrow> cell g b h w | None \<Rightarrow> randint (num_labels M) (renoise_raw D i b h w))) \<and>
         (rx = None \<longrightarrow> 0 \<le> randint (num_labels M) (renoise_raw D i b h w)
             \<and> randint (num_labels M) (renoise_raw D i b h w) < int (num_labels M))"
    by blast+
  show "shape3 x3 = shape3 x2" by (rule s)
  from p assms(2) have q:
    "(cell mk b h w = 0 \<or> cell mk b h w = 1) \<and>
         (cell mk b h w = 0 \<longrightarrow> cell x3 b h w = cell x2 b h w) \<and>
         (cell mk b h w = 1 \<longrightarrow>
            cell x3 b h w =
              (case rx of Some g \<Rightarrow> cell g b h w | None \<Rightarrow> randint (num_labels M) (renoise_raw D i b h w))) \<and>
         (rx = None \<longrightarrow> 0 \<le> randint (num_labels M) (renoise_raw D i b h w)
             \<and> randint (num_labels M) (renoise_raw D i b h w) < int (num_labels M))"
    by blast
  show "cell x3 b h w = cell x2 b h w \<or> cell x3 b h w = cell init b h w"
    if "renoise_mode cfg = ''start''"
    using q that unfolding rx_def by auto
  show "cell x3 b h w = cell x2 b h w \<or> cell x3 b h w = cell prev b h w"
    if "renoise_mode cfg \<noteq> ''start''" "renoise_mode cfg = ''prev''"
    using q that unfolding rx_def by auto
  show "cell x3 b h w = cell x2 b h w \<or>
           (0 \<le> cell x3 b h w \<and> cell x3 b h w < int (num_labels M))"
    if "renoise_mode cfg \<noteq> ''start''" "renoise_mode cfg \<noteq> ''prev''"
    using q that unfolding rx_def by auto
qed

lemma loop_body_cases:
  assumes "loop_body M cfg D c cf m init i x = Inr x'"
  shows "\<exists>x2. denoise_step M cfg D c cf m init i x = Inr x2 \<and>
           (i < renoise_steps cfg \<longrightarrow> renoise M cfg D c init x i x2 = Inr x') \<and>
           (\<not> i < renoise_steps cfg \<longrightarrow> x' = x2)"
proof -
  from assms obtain x2 where d: "denoise_step M cfg D c cf m init i x = Inr x2"
    and r: "(if i < renoise_steps cfg then renoise M cfg D c init x i x2 else Inr x2) = Inr x'"
    unfolding loop_body_def bind_e_eq_Inr by blast
  from r have "(i < renoise_steps cfg \<longrightarrow> renoise M cfg D c init x i x2 = Inr x') \<and>
           (\<not> i < renoise_steps cfg \<longrightarrow> x' = x2)"
    by (cases "i < renoise_steps cfg") simp_all
  with d show ?thesis by blast
qed

lemma loop_body_fixed:
  assumes l: "loop_body M cfg D c cf (Some m) init i x = Inr x'"
    and mode: "renoise_mode cfg = ''start'' \<or>
        (renoise_mode cfg = ''prev'' \<and> cell x b h w = cell init b h w) \<or>
        \<not> i < renoise_steps cfg"
    and i: "inb m b h w" and z: "cell m b h w = 0"
  shows "cell x' b h w = cell init b h w"
proof -
  from loop_body_cases [OF l] obtain x2
    where d: "denoise_step M cfg D c cf (Some m) init i x = Inr x2"
    and r: "i < renoise_steps cfg \<Longrightarrow> renoise M cfg D c init x i x2 = Inr x'"
    and n: "\<not> i < renoise_steps cfg \<Longrightarrow> x' = x2"
    by blast
  from denoise_step_restore [OF d] obtain x1 where x1: "restore (Some m) init x1 = Inr x2" ..
  note f = restore_fixed [OF x1 i z]
  have i2: "inb x2 b h w"
    using inb_shape3 [OF restore_shape(1) [OF x1]] i by simp
  show ?thesis
  proof (cases "i < renoise_steps cfg")
    case False
    with n f show ?thesis by simp
  next
    case True
    note rc = renoise_cells [OF r [OF True] i2]
    from mode True consider "renoise_mode cfg = ''start''"
      | "renoise_mode cfg \<noteq> ''start''" "renoise_mode cfg = ''prev''" "cell x b h w = cell init b h w"
      by blast
    then show ?thesis
    proof cases
      case 1
      with rc(1) f show ?thesis by auto
    next
      case 2
      with rc(2) f show ?thesis by auto
    qed
  qed
qed

lemma initial_x_masked:
  assumes "initial_x M D c (Some x0) (Some m) cfg = Inr init"
  shows "shape3 init = shape3 m"
    and "inb m b h w \<Longrightarrow> cell m b h w = 0 \<Longrightarrow> cell init b h w = cell x0 b h w"
proof -
  from assms have e: "blend (full (length c) (fst (size_hw cfg)) (snd (size_hw cfg))
                            (\<lambda>b h w. randint (num_labels M) (init_raw D b h w))) m x0 = Inr init"
    unfolding initial_x_def by (simp split: if_splits)
  show "shape3 init = shape3 m"
    using blend_Inr(3) [OF e] .
  show "cell init b h w = cell x0 b h w" if "inb m b h w" "cell m b h w = 0"
    using blend_Inr(4) [OF e that(1)] that(2) by simp
qed

lemma stub_loop_body_rand:
  "loop_body stub_model (stub_config\<lparr>renoise_mode := ''rand''\<rparr>) stub_draws [[1]] None
     (Some [[[0, 1]]]) [[[0, 1]]] 0 [[[0, 1]]] = Inr [[[1, 1]]]"
proof -
  have d: "denoise_step stub_model (stub_config\<lparr>renoise_mode := ''rand''\<rparr>) stub_draws [[1]] None
             (Some [[[0, 1]]]) [[[0, 1]]] 0 [[[0, 1]]] = Inr [[[0, 1]]]"
    by (rule stub_denoise_step) (simp_all add: stub_config_def)
  have r: "renoise stub_model (stub_config\<lparr>renoise_mode := ''rand''\<rparr>) stub_draws [[1]]
             [[[0, 1]]] [[[0, 1]]] 0 [[[0, 1]]] = Inr [[[1, 1]]]"
    by (rule stub_renoise_rand) (simp_all add: stub_config_def)
  show ?thesis
    unfolding loop_body_def d bind_e_Inr by (simp add: r) (simp add: stub_config_def)
qed

lemma stub_sample_rand:
  "sample stub_model stub_draws [[1]] (Some [[[0, 1]]]) (Some [[[0, 1]]])
     (stub_config\<lparr>renoise_mode := ''rand''\<rparr>) None = Inr [[[0, 1]]]"
proof -
  have i: "initial_x stub_model stub_draws [[1]] (Some [[[0, 1]]]) (Some [[[0, 1]]])
             (stub_config\<lparr>renoise_mode := ''rand''\<rparr>) = Inr [[[0, 1]]]"
    by (rule stub_initial_x) (simp add: stub_config_def)
  have d: "denoise_step stub_model (stub_config\<lparr>renoise_mode := ''rand''\<rparr>) stub_draws [[1]] None
             (Some [[[0, 1]]]) [[[0, 1]]] (Suc 0) [[[1, 1]]] = Inr [[[0, 1]]]"
    by (rule stub_denoise_step) (simp_all add: stub_config_def)
  have b1: "loop_body stub_model (stub_config\<lparr>renoise_mode := ''rand''\<rparr>) stub_draws [[1]] None
             (Some [[[0, 1]]]) [[[0, 1]]] (Suc 0) [[[1, 1]]] = Inr [[[0, 1]]]"
    unfolding loop_body_def d bind_e_Inr by (simp add: stub_config_def)
  have t: "T (stub_config\<lparr>renoise_mode := ''rand''\<rparr>) = 2"
    "starting_t (stub_config\<lparr>renoise_mode := ''rand''\<rparr>) = 0"
    by (simp_all add: stub_config_def)
  show ?thesis
    unfolding sample_def i bind_e_Inr t
    by (simp add: stub_loop_body_rand b1)
qed

section \<open>Classifier-free guidance\<close>

text \<open>C4. In a step with \<open>classifier_free_scale >= 0\<close> and \<open>c_full\<close> supplied, where the
  denoiser answers both calls with logits of one shape, the logits that are sampled from
  are, entry by entry, \<open>unconditioned + classifier_free_scale * (conditioned - unconditioned)\<close>,
  the unconditioned logits being those of the call with zeroed \<open>c\<close> and \<open>c_full\<close>. At
  scale 1 they are the conditioned logits, which are also the logits of the step without
  guidance; at scale 0 they are the unconditioned logits.\<close>

theorem classifier_free_blend:
  assumes s: "0 \<le> classifier_free_scale cfg"
    and sh: "gmap length (forward M x (map (map (\<lambda>v. 0)) c) r (Some (map (map (map (\<lambda>v. 0))) cf)))
             = gmap length (forward M x c r (Some cf))"
  shows "\<exists>logits.
     guided_logits M cfg c (Some cf) r x = Inr logits \<and>
     gmap length logits = gmap length (forward M x c r (Some cf)) \<and>
     (\<forall>b h w k. inb logits b h w \<and> k < length (cell logits b h w) \<longrightarrow>
        cell logits b h w ! k =
          cell (forward M x (map (map (\<lambda>v. 0)) c) r (Some (map (map (map (\<lambda>v. 0))) cf))) b h w ! k
          + classifier_free_scale cfg *
            (cell (forward M x c r (Some cf)) b h w ! k
             - cell (forward M x (map (map (\<lambda>v. 0)) c) r (Some (map (map (map (\<lambda>v. 0))) cf))) b h w ! k)) \<and>
     (classifier_free_scale cfg = 1 \<longrightarrow>
        logits = forward M x c r (Some cf) \<and>
        guided_logits M (cfg\<lparr>classifier_free_scale := - 1\<rparr>) c (Some cf) r x = Inr logits) \<and>
     (classifier_free_scale cfg = 0 \<longrightarrow>
        logits = forward M x (map (map (\<lambda>v. 0)) c) r (Some (map (map (map (\<lambda>v. 0))) cf)))"
proof -
  define U where "U = forward M x (map (map (\<lambda>v. 0)) c) r (Some (map (map (map (\<lambda>v. 0))) cf))"
  define C where "C = forward M x c r (Some cf)"
  define w where "w = classifier_free_scale cfg"
  define L where "L = gmap2 (map2 (\<lambda>u v. lerp u v w)) U C"
  have sh': "gmap length U = gmap length C"
    using sh unfolding U_def C_def .
  note s3 = shape3_of_rows [OF sh']
  have e: "guided_logits M cfg c (Some cf) r x = Inr L"
    unfolding guided_logits_def Let_def L_def U_def C_def w_def using s sh by simp
  have sL: "shape3 L = shape3 C"
    unfolding L_def using s3 by (simp add: shape3_gmap2)
  have cL: "cell L b h k = map2 (\<lambda>u v. lerp u v w) (cell U b h k) (cell C b h k)"
    if "inb C b h k" for b h k
    unfolding L_def using sh' that by (rule cell_gmap2_rows)
  have lL: "length (cell L b h k) = length (cell C b h k)" if "inb C b h k" for b h k
    using cL [OF that] length_of_rows [OF sh' that] by simp
  have gl: "gmap length L = gmap length C"
  proof (rule grid_ext)
    show "shape3 (gmap length L) = shape3 (gmap length C)"
      using sL by (simp add: shape3_gmap)
  next
    fix i h k assume "inb (gmap length L) i h k"
    then have iL: "inb L i h k" by (simp add: inb_gmap)
    then have iC: "inb C i h k" using inb_shape3 [OF sL] by simp
    show "cell (gmap length L) i h k = cell (gmap length C) i h k"
      using iL iC lL [OF iC] by (simp add: cell_gmap)
  qed
  have pt: "cell L b h k ! j = cell U b h k ! j + w * (cell C b h k ! j - cell U b h k ! j)"
    if "inb L b h k" and "j < length (cell L b h k)" for b h k j
  proof -
    have iC: "inb C b h k" using inb_shape3 [OF sL] that(1) by simp
    have "j < length (cell C b h k)" using lL [OF iC] that(2) by simp
    moreover have "j < length (cell U b h k)"
      using length_of_rows [OF sh' iC] calculation by simp
    ultimately show ?thesis
      unfolding cL [OF iC] lerp_def by simp
  qed
  have one: "L = C" if "w = 1"
  proof (rule grid_ext [OF sL])
    fix i h k assume "inb L i h k"
    then have iC: "inb C i h k" using inb_shape3 [OF sL] by simp
    have "map2 (\<lambda>u v. lerp u v 1) (cell U i h k) (cell C i h k) = map snd (zip (cell U i h k) (cell C i h k))"
      unfolding lerp_def by (simp add: case_prod_unfold)
    also have "\<dots> = cell C i h k"
      using length_of_rows [OF sh' iC] by simp
    finally show "cell L i h k = cell C i h k"
      unfolding cL [OF iC] that .
  qed
  have zero: "L = U" if "w = 0"
  proof (rule grid_ext)
    show "shape3 L = shape3 U" using sL s3 by simp
  next
    fix i h k assume "inb L i h k"
    then have iC: "inb C i h k" using inb_shape3 [OF sL] by simp
    have "map2 (\<lambda>u v. lerp u v 0) (cell U i h k) (cell C i h k) = map fst (zip (cell U i h k) (cell C i h k))"
      unfolding lerp_def by (simp add: case_prod_unfold)
    also have "\<dots> = cell U i h k"
      using length_of_rows [OF sh' iC] by simp
    finally show "cell L i h k = cell U i h k"
      unfolding cL [OF iC] that .
  qed
  have ung: "guided_logits M (cfg\<lparr>classifier_free_scale := - 1\<rparr>) c (Some cf) r x = Inr C"
    unfolding guided_logits_def Let_def C_def by simp
  show ?thesis
    using e gl pt one zero ung
    unfolding U_def [symmetric] C_def [symmetric] w_def [symmetric]
    by (intro exI [of _ L]) auto
qed

theorem classifier_free_blend_witness:
  "0 \<le> classifier_free_scale (stub_config\<lparr>classifier_free_scale := 1\<rparr>) \<and>
   forward stub_model [[[0, 1]]] (map (map (\<lambda>v. 0)) [[1]]) [0]
       (Some (map (map (map (\<lambda>v. 0))) [[[1]]])) = [[[[0, 0], [0, 0]]]] \<and>
   forward stub_model [[[0, 1]]] [[1]] [0] (Some [[[1]]]) = [[[[0, ln 3], [0, ln 3]]]] \<and>
   guided_logits stub_model (stub_config\<lparr>classifier_free_scale := 1\<rparr>) [[1]] (Some [[[1]]]) [0]
     [[[0, 1]]] = Inr [[[[0, ln 3], [0, ln 3]]]]"
proof -
  have s: "0 \<le> classifier_free_scale (stub_config\<lparr>classifier_free_scale := 1\<rparr>)"
    by simp
  have u: "forward stub_model [[[0, 1]]] (map (map (\<lambda>v. 0)) [[1]]) [0]
       (Some (map (map (map (\<lambda>v. 0))) [[[1]]])) = [[[[0, 0], [0, 0]]]]"
    and c: "forward stub_model [[[0, 1]]] [[1]] [0] (Some [[[1]]]) = [[[[0, ln 3], [0, ln 3]]]]"
    by (simp_all add: stub_model_def gmap_def)
  have sh: "gmap length (forward stub_model [[[0, 1]]] (map (map (\<lambda>v. 0)) [[1]]) [0]
       (Some (map (map (map (\<lambda>v. 0))) [[[1]]])))
     = gmap length (forward stub_model [[[0, 1]]] [[1]] [0] (Some [[[1]]]))"
    unfolding u c by (simp add: gmap_def)
  from classifier_free_blend [OF s sh] obtain logits where
    g: "guided_logits stub_model (stub_config\<lparr>classifier_free_scale := 1\<rparr>) [[1]] (Some [[[1]]]) [0]
          [[[0, 1]]] = Inr logits"
    and o: "classifier_free_scale (stub_config\<lparr>classifier_free_scale := 1\<rparr>) = 1 \<longrightarrow>
        logits = forward stub_model [[[0, 1]]] [[1]] [0] (Some [[[1]]])"
    by blast
  from o have "logits = [[[[0, ln 3], [0, ln 3]]]]"
    unfolding c by simp
  with g s u c show ?thesis
    by simp
qed

section \<open>Steps without re-corruption\<close>

text \<open>C7. With \<open>renoise_steps = 0\<close> the body of the loop is the step up to the mask
  restore and nothing more: the grid a step hands to the next one (and the last one
  returns) is the result of restoring the mask on the tokens sampled in that step.\<close>

theorem no_renoise_steps:
  assumes "renoise_steps cfg = 0"
  shows "loop_body M cfg D c cf m init_x i x = denoise_step M cfg D c cf m init_x i x \<and>
    (i < T cfg \<longrightarrow>
       for_range (loop_body M cfg D c cf m init_x) i (T cfg) x =
         bind_e (denoise_step M cfg D c cf m init_x i x)
           (for_range (loop_body M cfg D c cf m init_x) (Suc i) (T cfg))) \<and>
    for_range (loop_body M cfg D c cf m init_x) (T cfg) (T cfg) x = Inr x \<and>
    (\<forall>x2. denoise_step M cfg D c cf m init_x i x = Inr x2 \<longrightarrow>
       (\<exists>r temp logits x1.
          guided_logits M cfg c cf r x = Inr logits \<and>
          sample_tokens (roundoff M) cfg temp (gumbel_u D i) logits = Inr x1 \<and>
          restore m init_x x1 = Inr x2))"
proof -
  have l: "loop_body M cfg D c cf m init_x i x = denoise_step M cfg D c cf m init_x i x" for i x
    unfolding loop_body_def using assms
    by (cases "denoise_step M cfg D c cf m init_x i x") simp_all
  have d: "\<exists>r temp logits x1.
          guided_logits M cfg c cf r x = Inr logits \<and>
          sample_tokens (roundoff M) cfg temp (gumbel_u D i) logits = Inr x1 \<and>
          restore m init_x x1 = Inr x2"
    if "denoise_step M cfg D c cf m init_x i x = Inr x2" for x2
    using that unfolding denoise_step_def bind_e_eq_Inr by blast
  show ?thesis
    using l d by simp
qed

theorem no_renoise_steps_witness:
  "renoise_steps (stub_config\<lparr>renoise_steps := 0\<rparr>) = 0 \<and>
   loop_body stub_model (stub_config\<lparr>renoise_steps := 0\<rparr>) stub_draws [[1]] None
     (Some [[[0, 1]]]) [[[0, 1]]] 0 [[[0, 1]]] = Inr [[[0, 1]]] \<and>
   denoise_step stub_model (stub_config\<lparr>renoise_steps := 0\<rparr>) stub_draws [[1]] None
     (Some [[[0, 1]]]) [[[0, 1]]] 0 [[[0, 1]]] = Inr [[[0, 1]]]"
proof -
  have z: "renoise_steps (stub_config\<lparr>renoise_steps := 0\<rparr>) = 0"
    by simp
  have d: "denoise_step stub_model (stub_config\<lparr>renoise_steps := 0\<rparr>) stub_draws [[1]] None
     (Some [[[0, 1]]]) [[[0, 1]]] 0 [[[0, 1]]] = Inr [[[0, 1]]]"
    by (rule stub_denoise_step) (simp_all add: stub_config_def)
  from no_renoise_steps [OF z, of stub_model stub_draws "[[1]]" None "Some [[[0, 1]]]"
      "[[[0, 1]]]" 0 "[[[0, 1]]]"] d z
  show ?thesis
    by simp
qed

section \<open>Positions the mask fixes\<close>

text \<open>C1, as the code has it. With a grid \<open>x0\<close> and a mask supplied, at every position
  where the mask is 0: the grid the loop starts from holds the value of \<open>x0\<close>; so does
  the grid after the mask restore of every step, in every mode; so does the grid after a
  whole step when the mode is \<open>'start'\<close>, or the mode is \<open>'prev'\<close> and the grid the step
  started from held it, or the step does not re-corrupt; and so does the returned grid
  when the mode is \<open>'start'\<close> or \<open>'prev'\<close>, or when the last step does not re-corrupt.\<close>

theorem mask_fixed_positions:
  assumes init: "initial_x M D c (Some x0) (Some m) cfg = Inr init"
    and i: "inb m b h w" and z: "cell m b h w = 0"
  shows "cell init b h w = cell x0 b h w \<and>
    (\<forall>i x x2. denoise_step M cfg D c cf (Some m) init i x = Inr x2 \<longrightarrow>
        cell x2 b h w = cell x0 b h w) \<and>
    (\<forall>i x x'.
        (renoise_mode cfg = ''start'' \<or>
         (renoise_mode cfg = ''prev'' \<and> cell x b h w = cell x0 b h w) \<or>
         \<not> i < renoise_steps cfg) \<and>
        loop_body M cfg D c cf (Some m) init i x = Inr x' \<longrightarrow>
        cell x' b h w = cell x0 b h w) \<and>
    (\<forall>g.
        (renoise_mode cfg = ''start'' \<or> renoise_mode cfg = ''prev'' \<or>
         (renoise_steps cfg < T cfg \<and> starting_t cfg < T cfg)) \<and>
        sample M D c (Some x0) (Some m) cfg cf = Inr g \<longrightarrow>
        cell g b h w = cell x0 b h w)"
proof -
  have a: "cell init b h w = cell x0 b h w"
    using initial_x_masked(2) [OF init i z] .
  have d: "cell x2 b h w = cell x0 b h w"
    if "denoise_step M cfg D c cf (Some m) init j x = Inr x2" for j x x2
  proof -
    from denoise_step_restore [OF that] obtain x1
      where "restore (Some m) init x1 = Inr x2" ..
    from restore_fixed [OF this i z] a show ?thesis by simp
  qed
  have l: "cell x' b h w = cell x0 b h w"
    if "renoise_mode cfg = ''start'' \<or>
         (renoise_mode cfg = ''prev'' \<and> cell x b h w = cell x0 b h w) \<or>
         \<not> j < renoise_steps cfg"
      and "loop_body M cfg D c cf (Some m) init j x = Inr x'" for j x x'
  proof -
    from that(1) a have "renoise_mode cfg = ''start'' \<or>
        (renoise_mode cfg = ''prev'' \<and> cell x b h w = cell init b h w) \<or>
        \<not> j < renoise_steps cfg"
      by simp
    from loop_body_fixed [OF that(2) this i z] a show ?thesis by simp
  qed
  have s: "cell g b h w = cell x0 b h w"
    if mode: "renoise_mode cfg = ''start'' \<or> renoise_mode cfg = ''prev'' \<or>
         (renoise_steps cfg < T cfg \<and> starting_t cfg < T cfg)"
      and g: "sample M D c (Some x0) (Some m) cfg cf = Inr g" for g
  proof -
    from g init have f: "for_range (loop_body M cfg D c cf (Some m) init)
                           (starting_t cfg) (T cfg) init = Inr g"
      unfolding sample_def by simp
    from mode consider "renoise_mode cfg = ''start'' \<or> renoise_mode cfg = ''prev''"
      | "renoise_steps cfg < T cfg" "starting_t cfg < T cfg"
      by blast
    then show ?thesis
    proof cases
      case 1
      have "\<forall>j y y'. cell y b h w = cell x0 b h w \<longrightarrow>
                loop_body M cfg D c cf (Some m) init j y = Inr y' \<longrightarrow>
                cell y' b h w = cell x0 b h w"
        using l 1 by blast
      from for_range_invariant [of _ _ _ _ _ "\<lambda>y. cell y b h w = cell x0 b h w", OF f a this]
      show ?thesis .
    next
      case 2
      from for_range_last [OF f 2(2)] obtain y
        where y: "loop_body M cfg D c cf (Some m) init (T cfg - 1) y = Inr g" ..
      have "\<not> T cfg - 1 < renoise_steps cfg"
        using 2(1) by simp
      with l [OF _ y] show ?thesis by blast
    qed
  qed
  show ?thesis
    using a d l s by blast
qed

theorem mask_fixed_positions_witness:
  "initial_x stub_model stub_draws [[1]] (Some [[[0, 1]]]) (Some [[[0, 1]]]) stub_config
     = Inr [[[0, 1]]] \<and>
   inb [[[0, 1 :: int]]] 0 0 0 \<and> cell [[[0, 1 :: int]]] 0 0 0 = 0 \<and>
   renoise_mode stub_config = ''start'' \<and>
   sample stub_model stub_draws [[1]] (Some [[[0, 1]]]) (Some [[[0, 1]]]) stub_config None
     = Inr [[[0, 1]]] \<and>
   cell [[[0, 1 :: int]]] 0 0 0 = cell [[[0, 1 :: int]]] 0 0 0"
proof -
  have i: "initial_x stub_model stub_draws [[1]] (Some [[[0, 1]]]) (Some [[[0, 1]]]) stub_config
             = Inr [[[0, 1]]]"
    by (rule stub_initial_x) (simp add: stub_config_def)
  have b: "inb [[[0, 1 :: int]]] 0 0 0" and z: "cell [[[0, 1 :: int]]] 0 0 0 = 0"
    by (simp_all add: inb_def cell_def)
  have m: "renoise_mode stub_config = ''start''"
    by (simp add: stub_config_def)
  from mask_fixed_positions [OF i b z, of None] m stub_sample_start
  have "cell [[[0, 1 :: int]]] 0 0 0 = cell [[[0, 1 :: int]]] 0 0 0"
    by blast
  with i b z m stub_sample_start show ?thesis
    by blast
qed

text \<open>C1, as stated, fails for the mode \<open>'rand'\<close>: the re-corruption of step 0 replaces
  the token at a position where the mask is 0 by a fresh random token.\<close>

theorem mask_fixed_positions_counterexample:
  "initial_x stub_model stub_draws [[1]] (Some [[[0, 1]]]) (Some [[[0, 1]]])
     (stub_config\<lparr>renoise_mode := ''rand''\<rparr>) = Inr [[[0, 1]]] \<and>
   loop_body stub_model (stub_config\<lparr>renoise_mode := ''rand''\<rparr>) stub_draws [[1]] None
     (Some [[[0, 1]]]) [[[0, 1]]] 0 [[[0, 1]]] = Inr [[[1, 1]]] \<and>
   inb [[[0, 1 :: int]]] 0 0 0 \<and> cell [[[0, 1 :: int]]] 0 0 0 = 0 \<and>
   cell [[[1, 1 :: int]]] 0 0 0 \<noteq> cell [[[0, 1 :: int]]] 0 0 0"
proof -
  have i: "initial_x stub_model stub_draws [[1]] (Some [[[0, 1]]]) (Some [[[0, 1]]])
             (stub_config\<lparr>renoise_mode := ''rand''\<rparr>) = Inr [[[0, 1]]]"
    by (rule stub_initial_x) (simp add: stub_config_def)
  show ?thesis
    using i stub_loop_body_rand by (simp add: inb_def cell_def)
qed


section \<open>Facts about token ranges and about returning\<close>

lemma tokens_ok_cell:
  "tokens_ok n g = (\<forall>b h w. inb g b h w \<longrightarrow> 0 \<le> cell g b h w \<and> cell g b h w < int n)"
  unfolding tokens_ok_def by (rule grid_all_cell)

lemma inb_full: "inb (full B H W f) b h w = (b < B \<and> h < H \<and> w < W)"
  unfolding inb_def full_def by auto

lemma cell_full: "b < B \<Longrightarrow> h < H \<Longrightarrow> w < W \<Longrightarrow> cell (full B H W f) b h w = f b h w"
  unfolding cell_def full_def by simp

lemma tokens_ok_full:
  "0 < n \<Longrightarrow> tokens_ok n (full B H W (\<lambda>b h w. randint n (raw b h w)))"
  unfolding tokens_ok_cell using randint_range [of n]
  by (simp add: inb_full cell_full)

lemma blend_tokens_ok:
  assumes e: "blend a m b = Inr g" and a: "tokens_ok n a" and b: "tokens_ok n b"
    and m: "grid_all (\<lambda>v. v = 0 \<or> v = 1) m"
  shows "tokens_ok n g"
  unfolding tokens_ok_cell
proof (intro allI impI)
  fix i h w assume "inb g i h w"
  then have im: "inb m i h w"
    using inb_shape3 [OF blend_Inr(3) [OF e]] by simp
  then have ia: "inb a i h w" and ib: "inb b i h w"
    using inb_shape3 [OF blend_Inr(1) [OF e]] inb_shape3 [OF blend_Inr(2) [OF e]] by simp_all
  from m im have "cell m i h w = 0 \<or> cell m i h w = 1"
    unfolding grid_all_cell by blast
  moreover from a ia have "0 \<le> cell a i h w \<and> cell a i h w < int n"
    unfolding tokens_ok_cell by blast
  moreover from b ib have "0 \<le> cell b i h w \<and> cell b i h w < int n"
    unfolding tokens_ok_cell by blast
  ultimately show "0 \<le> cell g i h w \<and> cell g i h w < int n"
    unfolding blend_Inr(4) [OF e im] by auto
qed

lemma initial_x_tokens_ok:
  assumes x: "case x of None \<Rightarrow> True | Some x0 \<Rightarrow> tokens_ok (num_labels M) x0"
    and m: "case m of None \<Rightarrow> True | Some mk \<Rightarrow> grid_all (\<lambda>v. v = 0 \<or> v = 1) mk"
    and init: "initial_x M D c x m cfg = Inr init"
  shows "tokens_ok (num_labels M) init"
proof (cases x)
  case None
  with init have "0 < num_labels M"
    and "init = full (length c) (fst (size_hw cfg)) (snd (size_hw cfg))
                      (\<lambda>b h w. randint (num_labels M) (init_raw D b h w))"
    unfolding initial_x_def by (auto split: if_splits)
  then show ?thesis
    by (simp add: tokens_ok_full)
next
  case (Some x0)
  with x have x0: "tokens_ok (num_labels M) x0" by simp
  show ?thesis
  proof (cases m)
    case None
    with Some init x0 show ?thesis
      unfolding initial_x_def by simp
  next
    case (Some mk)
    with m have mk: "grid_all (\<lambda>v. v = 0 \<or> v = 1) mk" by simp
    from init \<open>x = Some x0\<close> Some have p: "0 < num_labels M"
      and e: "blend (full (length c) (fst (size_hw cfg)) (snd (size_hw cfg))
                            (\<lambda>b h w. randint (num_labels M) (init_raw D b h w))) mk x0 = Inr init"
      unfolding initial_x_def by (auto split: if_splits)
    from blend_tokens_ok [OF e tokens_ok_full [OF p] x0 mk] show ?thesis .
  qed
qed

lemma guided_logits_rows:
  assumes den: "\<forall>x c' r cf'. grid_all (\<lambda>row. length row = n) (forward M x c' r cf')"
    and g: "guided_logits M cfg c cf r y = Inr logits" and i: "inb logits b h w"
  shows "length (cell logits b h w) = n"
proof (cases "0 \<le> classifier_free_scale cfg")
  case False
  with g have "logits = forward M y c r cf"
    unfolding guided_logits_def Let_def by simp
  with den i show ?thesis
    unfolding grid_all_cell by blast
next
  case True
  with g obtain cf0 where cf: "cf = Some cf0"
    unfolding guided_logits_def Let_def by (cases cf) auto
  define U where "U = forward M y (map (map (\<lambda>v. 0)) c) r (Some (map (map (map (\<lambda>v. 0))) cf0))"
  define C where "C = forward M y c r (Some cf0)"
  from g True cf have sh: "gmap length U = gmap length C"
    and l: "logits = gmap2 (map2 (\<lambda>u v. lerp u v (classifier_free_scale cfg))) U C"
    unfolding guided_logits_def Let_def U_def C_def by (auto split: if_splits)
  have s: "shape3 logits = shape3 C"
    unfolding l using shape3_of_rows [OF sh] by (simp add: shape3_gmap2)
  then have iC: "inb C b h w"
    using inb_shape3 [OF s] i by simp
  have "length (cell logits b h w) = length (cell C b h w)"
    unfolding l cell_gmap2_rows [OF sh iC] using length_of_rows [OF sh iC] by simp
  also have "\<dots> = n"
    using den iC unfolding C_def grid_all_cell by blast
  finally show ?thesis .
qed

lemma sample_tokens_ok:
  assumes den: "\<forall>x c' r cf'. grid_all (\<lambda>row. length row = n) (forward M x c' r cf')"
    and g: "guided_logits M cfg c cf r y = Inr logits"
    and s: "sample_tokens F cfg temp u logits = Inr x1"
  shows "tokens_ok n x1"
  unfolding tokens_ok_cell
proof (intro allI impI)
  fix b h w assume "inb x1 b h w"
  then have i: "inb logits b h w"
    using inb_shape3 [OF sample_tokens_Inr(1) [OF s]] by simp
  from sample_row_Inr [OF sample_tokens_Inr(2) [OF s i]] guided_logits_rows [OF den g i]
  show "0 \<le> cell x1 b h w \<and> cell x1 b h w < int n"
    by simp
qed

lemma restore_tokens_ok:
  assumes m: "case m of None \<Rightarrow> True | Some mk \<Rightarrow> grid_all (\<lambda>v. v = 0 \<or> v = 1) mk"
    and r: "restore m init x1 = Inr x2" and a: "tokens_ok n x1" and b: "tokens_ok n init"
  shows "tokens_ok n x2"
proof (cases m)
  case None
  with r a show ?thesis unfolding restore_def by simp
next
  case (Some mk)
  with m have mk: "grid_all (\<lambda>v. v = 0 \<or> v = 1) mk" by simp
  from r Some have "blend x1 mk init = Inr x2"
    unfolding restore_def by simp
  from blend_tokens_ok [OF this a b mk] show ?thesis .
qed

lemma renoise_shape:
  assumes "renoise M cfg D c init prev i x2 = Inr x3"
  shows "shape3 x3 = shape3 x2"
proof -
  from renoise_add_noise [OF assms] obtain rr mk where
    an: "add_noise (roundoff M) (num_labels M) (bernoulli_u D i) (renoise_raw D i) x2 rr
            (if renoise_mode cfg = ''start'' then Some init
             else if renoise_mode cfg = ''prev'' then Some prev else None) = Inr (x3, mk)"
    by blast
  from add_noise_props [of "roundoff M" "num_labels M" "bernoulli_u D i" "renoise_raw D i" x2 rr _ x3 mk] an
  show ?thesis by blast
qed

lemma renoise_tokens_ok:
  assumes r: "renoise M cfg D c init prev i x2 = Inr x3"
    and a: "tokens_ok (num_labels M) x2" and b: "tokens_ok (num_labels M) init"
    and p: "tokens_ok (num_labels M) prev"
  shows "tokens_ok (num_labels M) x3"
  unfolding tokens_ok_cell
proof (intro allI impI)
  fix b0 h w assume i3: "inb x3 b0 h w"
  note s = renoise_shape [OF r]
  have i2: "inb x2 b0 h w"
    using inb_shape3 [OF s] i3 by simp
  from renoise_add_noise [OF r] obtain rr mk where
    an: "add_noise (roundoff M) (num_labels M) (bernoulli_u D i) (renoise_raw D i) x2 rr
            (if renoise_mode cfg = ''start'' then Some init
             else if renoise_mode cfg = ''prev'' then Some prev else None) = Inr (x3, mk)"
    by blast
  have ok2: "0 \<le> cell x2 b0 h w \<and> cell x2 b0 h w < int (num_labels M)"
    using a i2 unfolding tokens_ok_cell by blast
  show "0 \<le> cell x3 b0 h w \<and> cell x3 b0 h w < int (num_labels M)"
  proof (cases "renoise_mode cfg = ''start''")
    case True
    from add_noise_Inr(5) [OF an, of init] True have "shape3 init = shape3 x2" by simp
    then have "inb init b0 h w" using inb_shape3 i2 by blast
    with b have "0 \<le> cell init b0 h w \<and> cell init b0 h w < int (num_labels M)"
      unfolding tokens_ok_cell by blast
    with renoise_cells(1) [OF r i2 True] ok2 show ?thesis by auto
  next
    case ns: False
    show ?thesis
    proof (cases "renoise_mode cfg = ''prev''")
      case True
      from add_noise_Inr(5) [OF an, of prev] True ns have "shape3 prev = shape3 x2" by simp
      then have "inb prev b0 h w" using inb_shape3 i2 by blast
      with p have "0 \<le> cell prev b0 h w \<and> cell prev b0 h w < int (num_labels M)"
        unfolding tokens_ok_cell by blast
      with renoise_cells(2) [OF r i2 ns True] ok2 show ?thesis by auto
    next
      case False
      with renoise_cells(3) [OF r i2 ns False] ok2 show ?thesis by auto
    qed
  qed
qed

lemma denoise_step_tokens_ok:
  assumes den: "\<forall>x c' r cf'. grid_all (\<lambda>row. length row = num_labels M) (forward M x c' r cf')"
    and m: "case m of None \<Rightarrow> True | Some mk \<Rightarrow> grid_all (\<lambda>v. v = 0 \<or> v = 1) mk"
    and b: "tokens_ok (num_labels M) init"
    and d: "denoise_step M cfg D c cf m init i y = Inr x2"
  shows "tokens_ok (num_labels M) x2"
proof -
  from d obtain r temp logits x1 where g: "guided_logits M cfg c cf r y = Inr logits"
    and s: "sample_tokens (roundoff M) cfg temp (gumbel_u D i) logits = Inr x1"
    and t: "restore m init x1 = Inr x2"
    unfolding denoise_step_def bind_e_eq_Inr by blast
  from restore_tokens_ok [OF m t sample_tokens_ok [OF den g s] b] show ?thesis .
qed

lemma loop_body_tokens_ok:
  assumes den: "\<forall>x c' r cf'. grid_all (\<lambda>row. length row = num_labels M) (forward M x c' r cf')"
    and m: "case m of None \<Rightarrow> True | Some mk \<Rightarrow> grid_all (\<lambda>v. v = 0 \<or> v = 1) mk"
    and b: "tokens_ok (num_labels M) init"
    and y: "tokens_ok (num_labels M) y"
    and l: "loop_body M cfg D c cf m init i y = Inr y'"
  shows "tokens_ok (num_labels M) y'"
proof -
  from loop_body_cases [OF l] obtain x2
    where d: "denoise_step M cfg D c cf m init i y = Inr x2"
    and r: "i < renoise_steps cfg \<Longrightarrow> renoise M cfg D c init y i x2 = Inr y'"
    and n: "\<not> i < renoise_steps cfg \<Longrightarrow> y' = x2"
    by blast
  note x2 = denoise_step_tokens_ok [OF den m b d]
  show ?thesis
  proof (cases "i < renoise_steps cfg")
    case True
    from renoise_tokens_ok [OF r [OF True] x2 b y] show ?thesis .
  next
    case False
    with n x2 show ?thesis by simp
  qed
qed

lemma length_linspace: "length (linspace a b n) = n"
  unfolding linspace_def by simp

lemma length_temperatures: "length (temperatures cfg) = T cfg"
  unfolding temperatures_def by (rule length_linspace)

lemma r_range_eq: "r_range t b = map (\<lambda>k. replicate b (real k / real t)) [0..<t]"
proof -
  have "butlast (linspace 0 1 (t + 1)) = map (\<lambda>k. real k / real t) [0..<t]"
  proof -
    have b: "butlast [0..<t + 1] = [0..<t]"
      by simp
    have "butlast (linspace 0 1 (t + 1)) = map (\<lambda>k. 0 + real k * ((1 - 0) / real (t + 1 - 1))) (butlast [0..<t + 1])"
      unfolding linspace_def by (rule map_butlast [symmetric])
    also have "\<dots> = map (\<lambda>k. real k / real t) [0..<t]"
      unfolding b by simp
    finally show ?thesis .
  qed
  then show ?thesis
    unfolding r_range_def by (simp add: comp_def)
qed

lemma length_r_range: "length (r_range t b) = t"
  unfolding r_range_eq by simp

lemma item_r_range:
  "k < t \<Longrightarrow> item (r_range t b) k = Inr (replicate b (real k / real t))"
  unfolding item_def r_range_eq by simp

lemma shape3_full: "shape3 (full B H W f) = replicate B (replicate H W)"
  unfolding shape3_def full_def by (simp add: comp_def map_replicate_const)

lemma shape3_length: "shape3 a = shape3 b \<Longrightarrow> length a = length b"
  unfolding shape3_def by (metis length_map)

lemma guided_logits_total:
  assumes den: "\<forall>x c' r cf'. shape3 (forward M x c' r cf') = shape3 x \<and>
                  grid_all (\<lambda>row. length row = num_labels M) (forward M x c' r cf')"
    and cf: "0 \<le> classifier_free_scale cfg \<longrightarrow> cf \<noteq> None"
  shows "\<exists>logits. guided_logits M cfg c cf r y = Inr logits \<and> shape3 logits = shape3 y"
proof (cases "0 \<le> classifier_free_scale cfg")
  case False
  then have "guided_logits M cfg c cf r y = Inr (forward M y c r cf)"
    unfolding guided_logits_def Let_def by simp
  with den show ?thesis by simp
next
  case True
  with cf obtain cf0 where c0: "cf = Some cf0" by auto
  define U where "U = forward M y (map (map (\<lambda>v. 0)) c) r (Some (map (map (map (\<lambda>v. 0))) cf0))"
  define C where "C = forward M y c r (Some cf0)"
  have sU: "shape3 U = shape3 y" and sC: "shape3 C = shape3 y"
    using den unfolding U_def C_def by simp_all
  have rU: "inb U b h w \<Longrightarrow> length (cell U b h w) = num_labels M" for b h w
    using den unfolding U_def grid_all_cell by blast
  have rC: "inb C b h w \<Longrightarrow> length (cell C b h w) = num_labels M" for b h w
    using den unfolding C_def grid_all_cell by blast
  have sh: "gmap length U = gmap length C"
  proof (rule grid_ext)
    show "shape3 (gmap length U) = shape3 (gmap length C)"
      using sU sC by (simp add: shape3_gmap)
  next
    fix i h w assume "inb (gmap length U) i h w"
    then have iU: "inb U i h w" by (simp add: inb_gmap)
    then have iC: "inb C i h w"
      using inb_shape3 [of U C] sU sC by simp
    show "cell (gmap length U) i h w = cell (gmap length C) i h w"
      using iU iC rU rC by (simp add: cell_gmap)
  qed
  have "guided_logits M cfg c cf r y
        = Inr (gmap2 (map2 (\<lambda>u v. lerp u v (classifier_free_scale cfg))) U C)"
    using True sh unfolding guided_logits_def Let_def c0 U_def C_def by simp
  moreover have "shape3 (gmap2 (map2 (\<lambda>u v. lerp u v (classifier_free_scale cfg))) U C) = shape3 y"
    using sU sC by (simp add: shape3_gmap2)
  ultimately show ?thesis by simp
qed

lemma denoise_step_total:
  assumes den: "\<forall>x c' r cf'. shape3 (forward M x c' r cf') = shape3 x \<and>
                  grid_all (\<lambda>row. length row = num_labels M) (forward M x c' r cf')"
    and L: "0 < num_labels M"
    and tm: "typical_filtering cfg \<longrightarrow>
              (\<forall>row. row \<noteq> [] \<longrightarrow> last_ind (roundoff M) (typical_mass cfg) row < length row)"
    and cf: "0 \<le> classifier_free_scale cfg \<longrightarrow> cf \<noteq> None"
    and m: "case m of None \<Rightarrow> True | Some mk \<Rightarrow> shape3 init = shape3 mk"
    and y: "shape3 y = shape3 init" and i: "i < T cfg"
  shows "\<exists>x2. denoise_step M cfg D c cf m init i y = Inr x2 \<and> shape3 x2 = shape3 init"
proof -
  have r: "item (r_range (T cfg) (length c)) i
           = Inr (replicate (length c) (real i / real (T cfg)))"
    using i by (rule item_r_range)
  have t: "item (temperatures cfg) i = Inr (temperatures cfg ! i)"
    unfolding item_def using i by (simp add: length_temperatures)
  from guided_logits_total [OF den cf] obtain logits
    where g: "guided_logits M cfg c cf (replicate (length c) (real i / real (T cfg))) y = Inr logits"
      and sl: "shape3 logits = shape3 y"
    by blast
  have den': "\<forall>x c' r cf'. grid_all (\<lambda>row. length row = num_labels M) (forward M x c' r cf')"
    using den by blast
  have ne: "cell logits b h w \<noteq> []" if "inb logits b h w" for b h w
    using guided_logits_rows [OF den' g that] L by auto
  have li: "typical_filtering cfg \<longrightarrow>
      last_ind (roundoff M) (typical_mass cfg) (cell logits b h w) < length (cell logits b h w)"
    if "inb logits b h w" for b h w
    using tm ne [OF that] by blast
  from sample_tokens_total [OF ne li] obtain x1
    where s: "sample_tokens (roundoff M) cfg (temperatures cfg ! i) (gumbel_u D i) logits = Inr x1"
    by blast
  have s1: "shape3 x1 = shape3 init"
    using sample_tokens_Inr(1) [OF s] sl y by simp
  have "\<exists>x2. restore m init x1 = Inr x2 \<and> shape3 x2 = shape3 init"
  proof (cases m)
    case None
    with s1 show ?thesis unfolding restore_def by simp
  next
    case (Some mk)
    with m have sm: "shape3 init = shape3 mk" by simp
    from blend_total [of x1 mk init] s1 sm obtain x2 where b: "blend x1 mk init = Inr x2"
      by auto
    from blend_Inr(3) [OF b] sm Some b show ?thesis
      unfolding restore_def by simp
  qed
  then obtain x2 where x2: "restore m init x1 = Inr x2" "shape3 x2 = shape3 init"
    by blast
  have "denoise_step M cfg D c cf m init i y = Inr x2"
    unfolding denoise_step_def r bind_e_Inr t g s x2(1) ..
  with x2(2) show ?thesis by blast
qed

lemma renoise_total:
  assumes L: "0 < num_labels M"
    and i: "i + 1 < T cfg"
    and gm: "0 \<le> gamma (roundoff M) (real (i + 1) / real (T cfg))
             \<and> gamma (roundoff M) (real (i + 1) / real (T cfg)) \<le> 1"
    and len: "length x2 = length c"
    and si: "shape3 init = shape3 x2" and sp: "shape3 prev = shape3 x2"
  shows "\<exists>x3. renoise M cfg D c init prev i x2 = Inr x3 \<and> shape3 x3 = shape3 x2"
proof -
  define r where "r = replicate (length c) (real (i + 1) / real (T cfg))"
  have it: "item (r_range (T cfg) (length c)) (i + 1) = Inr r"
    unfolding r_def using i by (rule item_r_range)
  have rr: "\<forall>q \<in> set r. 0 \<le> gamma (roundoff M) q \<and> gamma (roundoff M) q \<le> 1"
    unfolding r_def using gm by auto
  have lr: "length r = length x2"
    unfolding r_def using len by simp
  define rx where "rx = (if renoise_mode cfg = ''start'' then Some init
                   else if renoise_mode cfg = ''prev'' then Some prev else None)"
  have ok: "case rx of None \<Rightarrow> 0 < num_labels M | Some g \<Rightarrow> shape3 g = shape3 x2"
    unfolding rx_def using L si sp by simp
  from add_noise_props [of "roundoff M" "num_labels M" "bernoulli_u D i" "renoise_raw D i" x2 r rx] lr rr ok
  obtain res where a: "add_noise (roundoff M) (num_labels M) (bernoulli_u D i) (renoise_raw D i) x2 r rx = Inr res"
    by blast
  have e: "renoise M cfg D c init prev i x2 = Inr (fst res)"
    unfolding renoise_def it bind_e_Inr using a unfolding rx_def
    by (simp split: if_splits)
  from renoise_shape [OF e] e show ?thesis by blast
qed

lemma loop_body_total:
  assumes den: "\<forall>x c' r cf'. shape3 (forward M x c' r cf') = shape3 x \<and>
                  grid_all (\<lambda>row. length row = num_labels M) (forward M x c' r cf')"
    and L: "0 < num_labels M"
    and tm: "typical_filtering cfg \<longrightarrow>
              (\<forall>row. row \<noteq> [] \<longrightarrow> last_ind (roundoff M) (typical_mass cfg) row < length row)"
    and cf: "0 \<le> classifier_free_scale cfg \<longrightarrow> cf \<noteq> None"
    and m: "case m of None \<Rightarrow> True | Some mk \<Rightarrow> shape3 init = shape3 mk"
    and len: "length init = length c"
    and rs: "renoise_steps cfg < T cfg"
    and gm: "\<forall>i < renoise_steps cfg.
               0 \<le> gamma (roundoff M) (real (i + 1) / real (T cfg))
               \<and> gamma (roundoff M) (real (i + 1) / real (T cfg)) \<le> 1"
    and y: "shape3 y = shape3 init" and i: "i < T cfg"
  shows "\<exists>y'. loop_body M cfg D c cf m init i y = Inr y' \<and> shape3 y' = shape3 init"
proof -
  from denoise_step_total [OF den L tm cf m y i] obtain x2
    where d: "denoise_step M cfg D c cf m init i y = Inr x2" and s2: "shape3 x2 = shape3 init"
    by blast
  show ?thesis
  proof (cases "i < renoise_steps cfg")
    case False
    with d s2 show ?thesis unfolding loop_body_def by simp
  next
    case True
    with rs have i1: "i + 1 < T cfg" by simp
    have l2: "length x2 = length c"
      using shape3_length [OF s2] len by simp
    from gm True have g1: "0 \<le> gamma (roundoff M) (real (i + 1) / real (T cfg))
             \<and> gamma (roundoff M) (real (i + 1) / real (T cfg)) \<le> 1"
      by blast
    from renoise_total [OF L i1 g1 l2, of init y D] s2 y obtain x3
      where "renoise M cfg D c init y i x2 = Inr x3" "shape3 x3 = shape3 x2"
      by auto
    with d s2 True show ?thesis unfolding loop_body_def by simp
  qed
qed

lemma for_range_total:
  "(\<forall>j y. j < n \<longrightarrow> P y \<longrightarrow> (\<exists>y'. body j y = Inr y' \<and> P y')) \<Longrightarrow> P x \<Longrightarrow>
   \<exists>g. for_range body i n x = Inr g \<and> P g"
proof (induction body i n x rule: for_range.induct)
  case (1 body i n x)
  show ?case
  proof (cases "i < n")
    case False
    with "1.prems"(2) show ?thesis by simp
  next
    case True
    with "1.prems" obtain y where y: "body i x = Inr y" and p: "P y" by blast
    from "1.IH" [OF True "1.prems"(1) p] obtain g
      where "for_range body (Suc i) n y = Inr g" "P g" by blast
    with y True show ?thesis by simp
  qed
qed

lemma initial_x_total:
  assumes L: "0 < num_labels M"
    and x: "case x of None \<Rightarrow> True | Some x0 \<Rightarrow> length x0 = length c"
    and m: "case m of None \<Rightarrow> True
            | Some mk \<Rightarrow> shape3 mk = replicate (length c) (replicate (fst (size_hw cfg)) (snd (size_hw cfg)))
                \<and> (case x of None \<Rightarrow> True | Some x0 \<Rightarrow> shape3 x0 = shape3 mk)"
  shows "\<exists>init. initial_x M D c x m cfg = Inr init \<and> length init = length c \<and>
           (case m of None \<Rightarrow> True | Some mk \<Rightarrow> shape3 init = shape3 mk)"
proof (cases x)
  case None
  define init where "init = full (length c) (fst (size_hw cfg)) (snd (size_hw cfg))
                      (\<lambda>b h w. randint (num_labels M) (init_raw D b h w))"
  have e: "initial_x M D c x m cfg = Inr init"
    unfolding initial_x_def init_def using None L by simp
  have l: "length init = length c"
    unfolding init_def full_def by simp
  have "case m of None \<Rightarrow> True | Some mk \<Rightarrow> shape3 init = shape3 mk"
    using m unfolding init_def by (cases m) (simp_all add: shape3_full)
  with e l show ?thesis by blast
next
  case (Some x0)
  with x have lx: "length x0 = length c" by simp
  show ?thesis
  proof (cases m)
    case None
    with Some lx show ?thesis unfolding initial_x_def by simp
  next
    case sm: (Some mk)
    with m Some have s1: "shape3 mk = replicate (length c) (replicate (fst (size_hw cfg)) (snd (size_hw cfg)))"
      and s2: "shape3 x0 = shape3 mk" by simp_all
    define noise where "noise = full (length c) (fst (size_hw cfg)) (snd (size_hw cfg))
                      (\<lambda>b h w. randint (num_labels M) (init_raw D b h w))"
    have "shape3 noise = shape3 mk"
      unfolding noise_def using s1 by (simp add: shape3_full)
    from blend_total [OF this s2] obtain init where b: "blend noise mk x0 = Inr init" ..
    have e: "initial_x M D c x m cfg = Inr init"
      unfolding initial_x_def Some sm using L b unfolding noise_def by simp
    have s: "shape3 init = shape3 mk"
      using blend_Inr(3) [OF b] .
    have "length init = length c"
      using shape3_length [OF s] shape3_length [OF s2] lx by simp
    with e s sm show ?thesis by simp
  qed
qed

lemma stub_denoiser_contract:
  "\<forall>x c' r cf'. shape3 (forward stub_model x c' r cf') = shape3 x \<and>
      grid_all (\<lambda>row. length row = num_labels stub_model) (forward stub_model x c' r cf')"
  unfolding grid_all_cell stub_model_def
  by (simp add: shape3_gmap inb_gmap cell_gmap)

lemma stub_sample_overrun:
  "sample stub_model stub_draws [[1]] (Some [[[0, 1]]]) (Some [[[0, 1]]])
     (stub_config\<lparr>renoise_steps := 2\<rparr>) None = Inl IndexError"
proof -
  have i: "initial_x stub_model stub_draws [[1]] (Some [[[0, 1]]]) (Some [[[0, 1]]])
             (stub_config\<lparr>renoise_steps := 2\<rparr>) = Inr [[[0, 1]]]"
    by (rule stub_initial_x) (simp add: stub_config_def)
  have d: "denoise_step stub_model (stub_config\<lparr>renoise_steps := 2\<rparr>) stub_draws [[1]] None
             (Some [[[0, 1]]]) [[[0, 1]]] i [[[0, 1]]] = Inr [[[0, 1]]]" if "i < 2" for i
    by (rule stub_denoise_step) (simp_all add: stub_config_def that)
  have r0: "renoise stub_model (stub_config\<lparr>renoise_steps := 2\<rparr>) stub_draws [[1]]
             [[[0, 1]]] [[[0, 1]]] 0 [[[0, 1]]] = Inr [[[0, 1]]]"
    by (rule stub_renoise_start) (simp_all add: stub_config_def)
  have r1: "renoise stub_model (stub_config\<lparr>renoise_steps := 2\<rparr>) stub_draws [[1]]
             [[[0, 1]]] [[[0, 1]]] 1 [[[0, 1]]] = Inl IndexError"
    by (rule stub_renoise_last) (simp add: stub_config_def)
  have b0: "loop_body stub_model (stub_config\<lparr>renoise_steps := 2\<rparr>) stub_draws [[1]] None
             (Some [[[0, 1]]]) [[[0, 1]]] 0 [[[0, 1]]] = Inr [[[0, 1]]]"
    unfolding loop_body_def d [of 0, simplified] bind_e_Inr by (simp add: r0)
  have b1: "loop_body stub_model (stub_config\<lparr>renoise_steps := 2\<rparr>) stub_draws [[1]] None
             (Some [[[0, 1]]]) [[[0, 1]]] (Suc 0) [[[0, 1]]] = Inl IndexError"
    unfolding loop_body_def d [of "Suc 0", simplified] bind_e_Inr using r1 by simp
  have t: "T (stub_config\<lparr>renoise_steps := 2\<rparr>) = 2"
    "starting_t (stub_config\<lparr>renoise_steps := 2\<rparr>) = 0"
    by (simp_all add: stub_config_def)
  show ?thesis
    unfolding sample_def i bind_e_Inr t by (simp add: b0 b1)
qed

lemma single_sample_mass_one:
  "sample single_model stub_draws [[1]] (Some [[[0, 1]]]) (Some [[[0, 1]]])
     (stub_config\<lparr>typical_mass := 1\<rparr>) None = Inl IndexError"
proof -
  let ?cfg = "stub_config\<lparr>typical_mass := 1\<rparr>"
  have i: "initial_x single_model stub_draws [[1]] (Some [[[0, 1]]]) (Some [[[0, 1]]]) ?cfg
           = Inr [[[0, 1]]]"
    unfolding initial_x_def single_model_def stub_draws_def stub_config_def blend_def full_def
      shape3_def gmap2_def randint_def
    by (simp add: upt_rec)
  have tc: "T ?cfg = 2"
    by (simp add: stub_config_def)
  have r: "item (r_range (T ?cfg) (length [[1::real]])) 0 = Inr [0]"
    unfolding tc r_range_2 item_def by simp
  have t: "item (temperatures ?cfg) 0 = Inr 1"
    unfolding item_def temperatures_def linspace_def by (simp add: stub_config_def)
  have g: "guided_logits single_model ?cfg [[1]] None [0] [[[0, 1]]] = Inr [[[[0, 2], [0, 2]]]]"
    unfolding guided_logits_def single_model_def gmap_def by (simp add: stub_config_def)
  have f: "sample_row single_roundoff ?cfg 1 u [0, 2] = Inl IndexError" for u
    unfolding sample_row_def by (simp add: stub_config_def typical_filter_02_single)
  have s: "sample_tokens (roundoff single_model) ?cfg 1 (gumbel_u stub_draws 0) [[[[0, 2], [0, 2]]]]
           = Inl IndexError"
    unfolding sample_tokens_def like_def gsequence_def cell_def
    by (simp add: upt_rec single_model_def f)
  have d: "denoise_step single_model ?cfg stub_draws [[1]] None (Some [[[0, 1]]]) [[[0, 1]]] 0 [[[0, 1]]]
           = Inl IndexError"
    unfolding denoise_step_def r bind_e_Inr t g s by simp
  have b: "loop_body single_model ?cfg stub_draws [[1]] None (Some [[[0, 1]]]) [[[0, 1]]] 0 [[[0, 1]]]
           = Inl IndexError"
    unfolding loop_body_def d by simp
  have c: "T ?cfg = 2" "starting_t ?cfg = 0"
    by (simp_all add: stub_config_def)
  show ?thesis
    unfolding sample_def i bind_e_Inr c by (simp add: b)
qed

section \<open>Tokens stay in range\<close>

text \<open>C9. Let the denoiser answer with \<open>num_labels\<close> scores per position, the supplied
  grid (if any) hold tokens in \<open>[0, num_labels)\<close> and the supplied mask (if any) hold
  only 0 and 1. Then every grid of the call holds tokens in \<open>[0, num_labels)\<close>: the
  grid the loop starts from, the tokens the arg-max samples, the grid after the mask
  restore, the grid after the re-corruption, the result of every step, and the grid
  that is returned.\<close>

theorem tokens_in_range:
  assumes den: "\<forall>x c' r cf'. grid_all (\<lambda>row. length row = num_labels M) (forward M x c' r cf')"
    and x: "case x of None \<Rightarrow> True | Some x0 \<Rightarrow> tokens_ok (num_labels M) x0"
    and m: "case m of None \<Rightarrow> True | Some mk \<Rightarrow> grid_all (\<lambda>v. v = 0 \<or> v = 1) mk"
    and init: "initial_x M D c x m cfg = Inr init"
  shows "tokens_ok (num_labels M) init \<and>
    (\<forall>r temp u y logits x1.
        guided_logits M cfg c cf r y = Inr logits \<and> sample_tokens (roundoff M) cfg temp u logits = Inr x1
        \<longrightarrow> tokens_ok (num_labels M) x1) \<and>
    (\<forall>x1 x2. tokens_ok (num_labels M) x1 \<and> restore m init x1 = Inr x2
        \<longrightarrow> tokens_ok (num_labels M) x2) \<and>
    (\<forall>i prev x2 x3.
        tokens_ok (num_labels M) prev \<and> tokens_ok (num_labels M) x2 \<and>
        renoise M cfg D c init prev i x2 = Inr x3 \<longrightarrow> tokens_ok (num_labels M) x3) \<and>
    (\<forall>i y y'. tokens_ok (num_labels M) y \<and> loop_body M cfg D c cf m init i y = Inr y'
        \<longrightarrow> tokens_ok (num_labels M) y') \<and>
    (\<forall>g. sample M D c x m cfg cf = Inr g \<longrightarrow> tokens_ok (num_labels M) g)"
proof -
  note a = initial_x_tokens_ok [OF x m init]
  have f: "tokens_ok (num_labels M) g" if "sample M D c x m cfg cf = Inr g" for g
  proof -
    from that init have f: "for_range (loop_body M cfg D c cf m init)
                           (starting_t cfg) (T cfg) init = Inr g"
      unfolding sample_def by simp
    have "\<forall>j y y'. tokens_ok (num_labels M) y \<longrightarrow>
                loop_body M cfg D c cf m init j y = Inr y' \<longrightarrow> tokens_ok (num_labels M) y'"
      using loop_body_tokens_ok [OF den m a] by blast
    from for_range_invariant [of _ _ _ _ _ "tokens_ok (num_labels M)", OF f a this]
    show ?thesis .
  qed
  have b: "tokens_ok (num_labels M) x1"
    if "guided_logits M cfg c cf r y = Inr logits \<and> sample_tokens (roundoff M) cfg temp u logits = Inr x1"
    for r temp u y logits x1
    using sample_tokens_ok [OF den, of cfg c cf r y logits "roundoff M" temp u x1] that by blast
  have c: "tokens_ok (num_labels M) x2"
    if "tokens_ok (num_labels M) x1 \<and> restore m init x1 = Inr x2" for x1 x2
    using restore_tokens_ok [OF m _ _ a, of x1 x2] that by blast
  have d: "tokens_ok (num_labels M) x3"
    if "tokens_ok (num_labels M) prev \<and> tokens_ok (num_labels M) x2 \<and>
        renoise M cfg D c init prev i x2 = Inr x3" for i prev x2 x3
    using renoise_tokens_ok [OF _ _ a, of cfg D c prev i x2 x3] that by blast
  have e: "tokens_ok (num_labels M) y'"
    if "tokens_ok (num_labels M) y \<and> loop_body M cfg D c cf m init i y = Inr y'" for i y y'
    using loop_body_tokens_ok [OF den m a, of y cfg D c cf i y'] that by blast
  from a b c d e f show ?thesis
    by (intro conjI allI impI)
qed

theorem tokens_in_range_witness:
  "(\<forall>x c' r cf'. grid_all (\<lambda>row. length row = num_labels stub_model) (forward stub_model x c' r cf')) \<and>
   tokens_ok (num_labels stub_model) [[[0, 1]]] \<and>
   grid_all (\<lambda>v. v = 0 \<or> v = 1) [[[0, 1 :: int]]] \<and>
   initial_x stub_model stub_draws [[1]] (Some [[[0, 1]]]) (Some [[[0, 1]]]) stub_config
     = Inr [[[0, 1]]] \<and>
   sample stub_model stub_draws [[1]] (Some [[[0, 1]]]) (Some [[[0, 1]]]) stub_config None
     = Inr [[[0, 1]]] \<and>
   loop_body stub_model (stub_config\<lparr>renoise_mode := ''rand''\<rparr>) stub_draws [[1]] None
     (Some [[[0, 1]]]) [[[0, 1]]] 0 [[[0, 1]]] = Inr [[[1, 1]]] \<and>
   tokens_ok (num_labels stub_model) [[[1, 1]]]"
proof -
  have den: "\<forall>x c' r cf'. grid_all (\<lambda>row. length row = num_labels stub_model)
               (forward stub_model x c' r cf')"
    using stub_denoiser_contract by blast
  have ok: "tokens_ok (num_labels stub_model) [[[0, 1]]]"
    by (simp add: tokens_ok_def grid_all_def stub_model_def)
  have mk: "grid_all (\<lambda>v. v = 0 \<or> v = 1) [[[0, 1 :: int]]]"
    by (simp add: grid_all_def)
  have x': "case Some [[[0, 1]]] of None \<Rightarrow> True | Some x0 \<Rightarrow> tokens_ok (num_labels stub_model) x0"
    using ok by simp
  have m': "case Some [[[0, 1 :: int]]] of None \<Rightarrow> True | Some mk \<Rightarrow> grid_all (\<lambda>v. v = 0 \<or> v = 1) mk"
    using mk by simp
  have i: "initial_x stub_model stub_draws [[1]] (Some [[[0, 1]]]) (Some [[[0, 1]]])
             (stub_config\<lparr>renoise_mode := ''rand''\<rparr>) = Inr [[[0, 1]]]"
    by (rule stub_initial_x) (simp add: stub_config_def)
  have i0: "initial_x stub_model stub_draws [[1]] (Some [[[0, 1]]]) (Some [[[0, 1]]]) stub_config
             = Inr [[[0, 1]]]"
    by (rule stub_initial_x) (simp add: stub_config_def)
  from tokens_in_range [OF den x' m' i, of None] ok stub_loop_body_rand
  have "tokens_ok (num_labels stub_model) [[[1, 1]]]"
    by blast
  with den ok mk i0 stub_sample_start stub_loop_body_rand show ?thesis
    by blast
qed

section \<open>The loop returns\<close>

text \<open>C5, as the code has it. For \<open>starting_t < T\<close> and \<open>renoise_steps < T\<close>, on
  well-formed inputs the call returns a grid, every step returns one, and
  \<open>r_range[i+1]\<close> is defined at every step \<open>i < renoise_steps\<close>. Well-formed: a
  denoiser that answers with logits of the shape of its grid and \<open>num_labels > 0\<close>
  scores per position; when the filter is on, a mass that stays below 1 by at least the
  rounding error \<open>e\<close> of the cumulative sum (so not a mass of 1.0 in floating point);
  a computed probability \<open>gamma r\<close> in the unit interval at every step that
  re-corrupts; \<open>c_full\<close> supplied when guidance is on; a grid with one plane per batch
  element; a mask of the shape (batch, height, width) of the call.\<close>

theorem sample_returns:
  assumes st: "starting_t cfg < T cfg" and rs: "renoise_steps cfg < T cfg"
    and den: "\<forall>x c' r cf'. shape3 (forward M x c' r cf') = shape3 x \<and>
                  grid_all (\<lambda>row. length row = num_labels M) (forward M x c' r cf')"
    and L: "0 < num_labels M"
    and tm: "typical_filtering cfg \<longrightarrow>
               (\<exists>e. (\<forall>g k. \<bar>cumsum_err (roundoff M) g k\<bar> \<le> e) \<and> typical_mass cfg \<le> 1 - e)"
    and gm: "\<forall>i < renoise_steps cfg.
               0 \<le> gamma (roundoff M) (real (i + 1) / real (T cfg))
               \<and> gamma (roundoff M) (real (i + 1) / real (T cfg)) \<le> 1"
    and cf: "0 \<le> classifier_free_scale cfg \<longrightarrow> cf \<noteq> None"
    and x: "case x of None \<Rightarrow> True | Some x0 \<Rightarrow> length x0 = length c"
    and m: "case m of None \<Rightarrow> True
            | Some mk \<Rightarrow> shape3 mk = replicate (length c) (replicate (fst (size_hw cfg)) (snd (size_hw cfg)))
                \<and> (case x of None \<Rightarrow> True | Some x0 \<Rightarrow> shape3 x0 = shape3 mk)"
  shows "(\<exists>g. sample M D c x m cfg cf = Inr g) \<and>
         (\<forall>i. i < renoise_steps cfg \<longrightarrow>
            item (r_range (T cfg) (length c)) (i + 1)
              = Inr (replicate (length c) (real (i + 1) / real (T cfg)))) \<and>
         (\<forall>init i y. initial_x M D c x m cfg = Inr init \<and> i < T cfg \<and> shape3 y = shape3 init
            \<longrightarrow> (\<exists>y'. loop_body M cfg D c cf m init i y = Inr y' \<and> shape3 y' = shape3 init))"
proof -
  from initial_x_total [OF L x m] obtain init
    where e: "initial_x M D c x m cfg = Inr init" and li: "length init = length c"
      and mi: "case m of None \<Rightarrow> True | Some mk \<Rightarrow> shape3 init = shape3 mk"
    by blast
  have tm': "typical_filtering cfg \<longrightarrow>
      (\<forall>row. row \<noteq> [] \<longrightarrow> last_ind (roundoff M) (typical_mass cfg) row < length row)"
    using tm last_ind_less_err by blast
  note lb = loop_body_total [OF den L tm' cf mi li rs gm]
  have "\<forall>j y. j < T cfg \<longrightarrow> shape3 y = shape3 init \<longrightarrow>
          (\<exists>y'. loop_body M cfg D c cf m init j y = Inr y' \<and> shape3 y' = shape3 init)"
    using lb by blast
  from for_range_total [of "T cfg" "\<lambda>y. shape3 y = shape3 init" _ init "starting_t cfg", OF this]
  obtain g where "for_range (loop_body M cfg D c cf m init) (starting_t cfg) (T cfg) init = Inr g"
    by blast
  then have a: "\<exists>g. sample M D c x m cfg cf = Inr g"
    unfolding sample_def e by simp
  have b: "item (r_range (T cfg) (length c)) (i + 1)
              = Inr (replicate (length c) (real (i + 1) / real (T cfg)))"
    if "i < renoise_steps cfg" for i
    using that rs by (intro item_r_range) simp
  have c: "\<exists>y'. loop_body M cfg D c cf m init' i y = Inr y' \<and> shape3 y' = shape3 init'"
    if "initial_x M D c x m cfg = Inr init' \<and> i < T cfg \<and> shape3 y = shape3 init'" for init' i y
    using lb [of y i] that e by auto
  from a b c show ?thesis by blast
qed

theorem sample_returns_witness:
  "starting_t stub_config < T stub_config \<and> renoise_steps stub_config < T stub_config \<and>
   (\<forall>x c' r cf'. shape3 (forward stub_model x c' r cf') = shape3 x \<and>
      grid_all (\<lambda>row. length row = num_labels stub_model) (forward stub_model x c' r cf')) \<and>
   0 < num_labels stub_model \<and>
   (\<forall>g k. \<bar>cumsum_err (roundoff stub_model) g k\<bar> \<le> 0) \<and> typical_mass stub_config \<le> 1 - 0 \<and>
   renoise_steps stub_config = 1 \<and>
   0 \<le> gamma (roundoff stub_model) (real (0 + 1) / real (T stub_config)) \<and>
   gamma (roundoff stub_model) (real (0 + 1) / real (T stub_config)) \<le> 1 \<and>
   classifier_free_scale stub_config < 0 \<and>
   length [[[0, 1 :: int]]] = length [[1 :: real]] \<and>
   shape3 [[[0, 1 :: int]]]
     = replicate (length [[1 :: real]]) (replicate (fst (size_hw stub_config)) (snd (size_hw stub_config))) \<and>
   sample stub_model stub_draws [[1]] (Some [[[0, 1]]]) (Some [[[0, 1]]]) stub_config None
     = Inr [[[0, 1]]] \<and>
   item (r_range (T stub_config) (length [[1 :: real]])) (0 + 1)
     = Inr (replicate (length [[1 :: real]]) (real (0 + 1) / real (T stub_config)))"
proof -
  have st: "starting_t stub_config < T stub_config" and rs: "renoise_steps stub_config < T stub_config"
    and L: "0 < num_labels stub_model" and tm: "typical_mass stub_config \<le> 1 - 0"
    and cfs: "classifier_free_scale stub_config < 0"
    and r1: "renoise_steps stub_config = 1"
    by (simp_all add: stub_config_def stub_model_def)
  have ce: "\<forall>g k. \<bar>cumsum_err (roundoff stub_model) g k\<bar> \<le> 0"
    by (simp add: stub_model_def no_roundoff_def)
  have g0: "0 \<le> gamma (roundoff stub_model) (real (0 + 1) / real (T stub_config))"
    and g1: "gamma (roundoff stub_model) (real (0 + 1) / real (T stub_config)) \<le> 1"
    using gamma_half by (simp_all add: stub_model_def stub_config_def)
  have lx: "length [[[0, 1 :: int]]] = length [[1 :: real]]"
    by simp
  have sm: "shape3 [[[0, 1 :: int]]]
     = replicate (length [[1 :: real]]) (replicate (fst (size_hw stub_config)) (snd (size_hw stub_config)))"
    by (simp add: shape3_def stub_config_def)
  have tm': "typical_filtering stub_config \<longrightarrow>
      (\<exists>e. (\<forall>g k. \<bar>cumsum_err (roundoff stub_model) g k\<bar> \<le> e) \<and> typical_mass stub_config \<le> 1 - e)"
    using ce tm by blast
  have gm': "\<forall>i < renoise_steps stub_config.
               0 \<le> gamma (roundoff stub_model) (real (i + 1) / real (T stub_config))
               \<and> gamma (roundoff stub_model) (real (i + 1) / real (T stub_config)) \<le> 1"
    unfolding r1 using g0 g1 by simp
  have cf': "0 \<le> classifier_free_scale stub_config \<longrightarrow> (None :: cond_full option) \<noteq> None"
    using cfs by simp
  have x': "case Some [[[0, 1 :: int]]] of None \<Rightarrow> True | Some x0 \<Rightarrow> length x0 = length [[1 :: real]]"
    by simp
  have m': "case Some [[[0, 1 :: int]]] of None \<Rightarrow> True
            | Some mk \<Rightarrow> shape3 mk = replicate (length [[1 :: real]])
                  (replicate (fst (size_hw stub_config)) (snd (size_hw stub_config)))
                \<and> (case Some [[[0, 1 :: int]]] of None \<Rightarrow> True | Some x0 \<Rightarrow> shape3 x0 = shape3 mk)"
    using sm by simp
  from sample_returns [OF st rs stub_denoiser_contract L tm' gm' cf' x' m', of stub_draws]
  have g: "\<exists>g. sample stub_model stub_draws [[1]] (Some [[[0, 1]]]) (Some [[[0, 1]]]) stub_config None
            = Inr g"
    and it: "\<forall>i. i < renoise_steps stub_config \<longrightarrow>
            item (r_range (T stub_config) (length [[1 :: real]])) (i + 1)
              = Inr (replicate (length [[1 :: real]]) (real (i + 1) / real (T stub_config)))"
    by blast+
  have z: "0 < renoise_steps stub_config"
    by (simp add: stub_config_def)
  from it z have "item (r_range (T stub_config) (length [[1 :: real]])) (0 + 1)
     = Inr (replicate (length [[1 :: real]]) (real (0 + 1) / real (T stub_config)))"
    by blast
  with st rs stub_denoiser_contract L ce tm r1 g0 g1 cfs lx sm stub_sample_start show ?thesis
    by blast
qed

text \<open>C5, as stated, fails in two ways. For \<open>renoise_steps = T\<close>, \<open>r_range\<close> has \<open>T\<close>
  entries and the last step asks for the entry of index \<open>T\<close>. And with the filter on
  at a mass of 1.0, a run in single precision whose logits are \<open>[0, 2]\<close> ends in the
  out-of-range gather of the filter at its first step, although \<open>renoise_steps < T\<close>.\<close>

theorem sample_returns_counterexample:
  "0 < T (stub_config\<lparr>renoise_steps := 2\<rparr>) \<and>
   starting_t (stub_config\<lparr>renoise_steps := 2\<rparr>) < T (stub_config\<lparr>renoise_steps := 2\<rparr>) \<and>
   renoise_steps (stub_config\<lparr>renoise_steps := 2\<rparr>) \<le> T (stub_config\<lparr>renoise_steps := 2\<rparr>) \<and>
   item (r_range (T (stub_config\<lparr>renoise_steps := 2\<rparr>)) (length [[1 :: real]])) (1 + 1)
     = Inl IndexError \<and>
   sample stub_model stub_draws [[1]] (Some [[[0, 1]]]) (Some [[[0, 1]]])
     (stub_config\<lparr>renoise_steps := 2\<rparr>) None = Inl IndexError \<and>
   0 < T (stub_config\<lparr>typical_mass := 1\<rparr>) \<and>
   starting_t (stub_config\<lparr>typical_mass := 1\<rparr>) < T (stub_config\<lparr>typical_mass := 1\<rparr>) \<and>
   renoise_steps (stub_config\<lparr>typical_mass := 1\<rparr>) < T (stub_config\<lparr>typical_mass := 1\<rparr>) \<and>
   sample single_model stub_draws [[1]] (Some [[[0, 1]]]) (Some [[[0, 1]]])
     (stub_config\<lparr>typical_mass := 1\<rparr>) None = Inl IndexError"
proof -
  have "item (r_range (T (stub_config\<lparr>renoise_steps := 2\<rparr>)) (length [[1 :: real]])) (1 + 1)
     = Inl IndexError"
    unfolding item_def by (simp add: length_r_range stub_config_def)
  with stub_sample_overrun single_sample_mass_one show ?thesis
    by (simp add: stub_config_def)
qed

section \<open>The re-corruption mode\<close>

text \<open>C10. A \<open>renoise_mode\<close> that is neither \<open>'start'\<close> nor \<open>'prev'\<close> is not refused. The
  re-corruption of a step is then the call of \<open>add_noise\<close> with no \<open>random_x\<close>: when it
  returns, every position whose Bernoulli draw is below the computed probability
  \<open>gamma r\<close> of \<open>r = r_range[i+1]\<close> holds a freshly drawn token of \<open>[0, num_labels)\<close>,
  and every other position keeps its token. The re-corruption, every step and the whole
  call are those of the mode \<open>'rand'\<close>, failures included.\<close>

theorem renoise_mode_fallback:
  assumes "renoise_mode cfg \<noteq> ''start''" and "renoise_mode cfg \<noteq> ''prev''"
  shows "renoise M cfg D c init_x prev_x i x =
           bind_e (item (r_range (T cfg) (length c)) (i + 1)) (\<lambda>r.
             bind_e (add_noise (roundoff M) (num_labels M) (bernoulli_u D i) (renoise_raw D i)
                       x r None)
               (\<lambda>p. Inr (fst p))) \<and>
         (renoise M cfg D c init_x prev_x i x = Inr x3 \<longrightarrow>
            i + 1 < T cfg \<and> 0 < num_labels M \<and> shape3 x3 = shape3 x \<and>
            (\<forall>b h w. inb x b h w \<longrightarrow>
               cell x3 b h w =
                 (if bernoulli_u D i b h w < gamma (roundoff M) (real (i + 1) / real (T cfg))
                  then randint (num_labels M) (renoise_raw D i b h w)
                  else cell x b h w) \<and>
               0 \<le> randint (num_labels M) (renoise_raw D i b h w) \<and>
               randint (num_labels M) (renoise_raw D i b h w) < int (num_labels M))) \<and>
         renoise M cfg D c init_x prev_x i x
           = renoise M (cfg\<lparr>renoise_mode := ''rand''\<rparr>) D c init_x prev_x i x \<and>
         loop_body M cfg D c cf m init_x i x
           = loop_body M (cfg\<lparr>renoise_mode := ''rand''\<rparr>) D c cf m init_x i x \<and>
         sample M D c x0 m cfg cf = sample M D c x0 m (cfg\<lparr>renoise_mode := ''rand''\<rparr>) cf"
proof (intro conjI impI)
  show u: "renoise M cfg D c init_x prev_x i x =
           bind_e (item (r_range (T cfg) (length c)) (i + 1)) (\<lambda>r.
             bind_e (add_noise (roundoff M) (num_labels M) (bernoulli_u D i) (renoise_raw D i)
                       x r None)
               (\<lambda>p. Inr (fst p)))"
    unfolding renoise_def using assms by simp
  show "renoise M cfg D c init_x prev_x i x
           = renoise M (cfg\<lparr>renoise_mode := ''rand''\<rparr>) D c init_x prev_x i x"
    using assms by (rule renoise_other_mode)
  have b: "loop_body M cfg D c cf m g = loop_body M (cfg\<lparr>renoise_mode := ''rand''\<rparr>) D c cf m g"
    for g
    unfolding loop_body_def denoise_step_mode
    by (intro ext) (simp add: renoise_other_mode [OF assms, symmetric] cong: if_cong)
  show "loop_body M cfg D c cf m init_x i x
           = loop_body M (cfg\<lparr>renoise_mode := ''rand''\<rparr>) D c cf m init_x i x"
    by (simp only: b)
  have i: "initial_x M D c x0 m (cfg\<lparr>renoise_mode := ''rand''\<rparr>) = initial_x M D c x0 m cfg"
    unfolding initial_x_def by (simp cong: if_cong option.case_cong)
  show "sample M D c x0 m cfg cf = sample M D c x0 m (cfg\<lparr>renoise_mode := ''rand''\<rparr>) cf"
    unfolding sample_def i b by simp
  assume r: "renoise M cfg D c init_x prev_x i x = Inr x3"
  from r [unfolded u bind_e_eq_Inr] obtain rr p where
    it: "item (r_range (T cfg) (length c)) (i + 1) = Inr rr"
    and an: "add_noise (roundoff M) (num_labels M) (bernoulli_u D i) (renoise_raw D i) x rr None
             = Inr p"
    and x3: "x3 = fst p"
    by auto
  from an x3 have an': "add_noise (roundoff M) (num_labels M) (bernoulli_u D i) (renoise_raw D i)
      x rr None = Inr (x3, snd p)"
    by simp
  show t: "i + 1 < T cfg"
    using it unfolding item_def by (simp add: length_r_range split: if_splits)
  from item_r_range [OF t, of "length c"] it
  have rr: "rr = replicate (length c) (real (i + 1) / real (T cfg))"
    by simp
  show L: "0 < num_labels M"
    using add_noise_Inr(4) [OF an'] by simp
  have lx: "length x = length c"
    using add_noise_Inr(1) [OF an'] unfolding rr by simp
  note pr = add_noise_props [of "roundoff M" "num_labels M" "bernoulli_u D i" "renoise_raw D i"
      x rr None x3 "snd p"]
  show "shape3 x3 = shape3 x"
    using pr an' by blast
  show "\<forall>b h w. inb x b h w \<longrightarrow>
               cell x3 b h w =
                 (if bernoulli_u D i b h w < gamma (roundoff M) (real (i + 1) / real (T cfg))
                  then randint (num_labels M) (renoise_raw D i b h w)
                  else cell x b h w) \<and>
               0 \<le> randint (num_labels M) (renoise_raw D i b h w) \<and>
               randint (num_labels M) (renoise_raw D i b h w) < int (num_labels M)"
  proof (intro allI impI)
    fix b h w assume ib: "inb x b h w"
    then have "b < length c"
      using lx unfolding inb_def by simp
    then have rb: "rr ! b = real (i + 1) / real (T cfg)"
      unfolding rr by simp
    from pr an' ib have
      m0: "cell (snd p) b h w = 0 \<longrightarrow> cell x3 b h w = cell x b h w"
      and m1: "cell (snd p) b h w = 1 \<longrightarrow> cell x3 b h w = randint (num_labels M) (renoise_raw D i b h w)"
      and mb: "cell (snd p) b h w
               = bernoulli (gamma (roundoff M) (rr ! b)) (bernoulli_u D i b h w)"
      by simp_all
    from m0 m1 mb have "cell x3 b h w =
                 (if bernoulli_u D i b h w < gamma (roundoff M) (real (i + 1) / real (T cfg))
                  then randint (num_labels M) (renoise_raw D i b h w)
                  else cell x b h w)"
      unfolding rb bernoulli_def by (simp split: if_splits)
    with randint_range [OF L, of "renoise_raw D i b h w"]
    show "cell x3 b h w =
                 (if bernoulli_u D i b h w < gamma (roundoff M) (real (i + 1) / real (T cfg))
                  then randint (num_labels M) (renoise_raw D i b h w)
                  else cell x b h w) \<and>
               0 \<le> randint (num_labels M) (renoise_raw D i b h w) \<and>
               randint (num_labels M) (renoise_raw D i b h w) < int (num_labels M)"
      by blast
  qed
qed

theorem renoise_mode_fallback_witness:
  "renoise_mode (stub_config\<lparr>renoise_mode := ''bogus''\<rparr>) \<noteq> ''start'' \<and>
   renoise_mode (stub_config\<lparr>renoise_mode := ''bogus''\<rparr>) \<noteq> ''prev'' \<and>
   renoise stub_model (stub_config\<lparr>renoise_mode := ''bogus''\<rparr>) stub_draws [[1]]
     [[[0, 1]]] [[[0, 1]]] 0 [[[0, 1]]] = Inr [[[1, 1]]] \<and>
   inb [[[0, 1 :: int]]] 0 0 0 \<and>
   bernoulli_u stub_draws 0 0 0 0
     < gamma (roundoff stub_model) (real (0 + 1) / real (T (stub_config\<lparr>renoise_mode := ''bogus''\<rparr>))) \<and>
   cell [[[1, 1 :: int]]] 0 0 0 = randint (num_labels stub_model) (renoise_raw stub_draws 0 0 0 0) \<and>
   cell [[[1, 1 :: int]]] 0 0 0 \<noteq> cell [[[0, 1 :: int]]] 0 0 0 \<and>
   loop_body stub_model (stub_config\<lparr>renoise_mode := ''bogus''\<rparr>) stub_draws [[1]] None
     (Some [[[0, 1]]]) [[[0, 1]]] 0 [[[0, 1]]] = Inr [[[1, 1]]] \<and>
   sample stub_model stub_draws [[1]] (Some [[[0, 1]]]) (Some [[[0, 1]]])
     (stub_config\<lparr>renoise_mode := ''bogus''\<rparr>) None = Inr [[[0, 1]]]"
proof -
  have a: "renoise_mode (stub_config\<lparr>renoise_mode := ''bogus''\<rparr>) \<noteq> ''start''"
    and b: "renoise_mode (stub_config\<lparr>renoise_mode := ''bogus''\<rparr>) \<noteq> ''prev''"
    by simp_all
  have t: "T (stub_config\<lparr>renoise_mode := ''bogus''\<rparr>) = 2"
    by (simp add: stub_config_def)
  have r: "renoise stub_model (stub_config\<lparr>renoise_mode := ''bogus''\<rparr>) stub_draws [[1]]
     [[[0, 1]]] [[[0, 1]]] 0 [[[0, 1]]] = Inr [[[1, 1]]]"
    using t a b by (rule stub_renoise_rand)
  have i: "inb [[[0, 1 :: int]]] 0 0 0"
    by (simp add: inb_def)
  have g: "bernoulli_u stub_draws 0 0 0 0
     < gamma (roundoff stub_model) (real (0 + 1) / real (T (stub_config\<lparr>renoise_mode := ''bogus''\<rparr>)))"
    unfolding t using gamma_half(1) by (simp add: stub_draws_def stub_model_def)
  have d: "cell [[[1, 1 :: int]]] 0 0 0 \<noteq> cell [[[0, 1 :: int]]] 0 0 0"
    by (simp add: cell_def)
  note f = renoise_mode_fallback [OF a b, where M = stub_model and D = stub_draws
      and c = "[[1]]" and init_x = "[[[0, 1]]]" and prev_x = "[[[0, 1]]]" and i = 0
      and x = "[[[0, 1]]]" and ?x3.0 = "[[[1, 1]]]" and cf = None and m = "Some [[[0, 1]]]"
      and ?x0.0 = "Some [[[0, 1]]]"]
  from f r i g have c: "cell [[[1, 1 :: int]]] 0 0 0
      = randint (num_labels stub_model) (renoise_raw stub_draws 0 0 0 0)"
    by simp
  from f stub_loop_body_rand
  have l: "loop_body stub_model (stub_config\<lparr>renoise_mode := ''bogus''\<rparr>) stub_draws [[1]] None
     (Some [[[0, 1]]]) [[[0, 1]]] 0 [[[0, 1]]] = Inr [[[1, 1]]]"
    by simp
  from f stub_sample_rand
  have s: "sample stub_model stub_draws [[1]] (Some [[[0, 1]]]) (Some [[[0, 1]]])
     (stub_config\<lparr>renoise_mode := ''bogus''\<rparr>) None = Inr [[[0, 1]]]"
    by simp
  from a b r i g c d l s show ?thesis
    by blast
qed

end
